theory Spec2Isabelle
  imports Main "HOL-Library.Char_ord" "HOL-Library.Word"
begin

section \<open>BgeConfig: a shallow embedding of \<^verbatim>\<open>BgeConfig.hpp\<close>\<close>

text \<open>
  The header defines a configuration document: a tree of named sections holding typed
  properties, a line parser (\<^verbatim>\<open>BgeConfig::Open\<close>), a writer (\<^verbatim>\<open>Save\<close>) and
  dotted-path addressing. C++ exceptions and null-pointer dereferences are values of
  \<open>error\<close>; a function that can reach one returns \<open>error + 'a\<close>.
\<close>

datatype error = out_of_range | invalid_argument | null_dereference

subsection \<open>\<^verbatim>\<open>std::string\<close> operations used by the header\<close>

text \<open>\<^verbatim>\<open>str.at(i)\<close>: throws \<^verbatim>\<open>std::out_of_range\<close> when \<open>i \<ge> size\<close>.\<close>

definition at :: "string \<Rightarrow> nat \<Rightarrow> error + char" where
  "at str i = (if i < length str then Inr (str ! i) else Inl out_of_range)"

text \<open>\<^verbatim>\<open>str.find_first_of(c)\<close>: the first index of \<open>c\<close>; \<open>None\<close> is \<^verbatim>\<open>npos\<close>.\<close>

fun find_first_of :: "char \<Rightarrow> string \<Rightarrow> nat option" where
  "find_first_of c [] = None"
| "find_first_of c (x # xs) =
     (if x = c then Some 0 else map_option Suc (find_first_of c xs))"

text \<open>\<^verbatim>\<open>str.find_last_of(c)\<close>: the last index of \<open>c\<close>; \<open>None\<close> is \<^verbatim>\<open>npos\<close>.\<close>

fun find_last_of :: "char \<Rightarrow> string \<Rightarrow> nat option" where
  "find_last_of c [] = None"
| "find_last_of c (x # xs) =
     (case find_last_of c xs of
        Some i \<Rightarrow> Some (Suc i)
      | None \<Rightarrow> (if x = c then Some 0 else None))"

text \<open>
  \<^verbatim>\<open>str.substr(pos, n)\<close> and \<^verbatim>\<open>str.substr(pos)\<close>. Every call in the header has
  \<open>pos \<le> size\<close>, where \<^verbatim>\<open>substr\<close> does not throw.
\<close>

definition substr :: "string \<Rightarrow> nat \<Rightarrow> nat \<Rightarrow> string" where
  "substr str pos n = take n (drop pos str)"

definition substr_from :: "string \<Rightarrow> nat \<Rightarrow> string" where
  "substr_from str pos = drop pos str"

subsection \<open>Value types and the classifier\<close>

datatype BgePropertyValueType = UNKNOWN | STRING | FLOAT | BOOL | INT'

text \<open>The digit loop of \<^verbatim>\<open>StringIsNumber\<close>, over the characters from \<open>index\<close> on.\<close>

fun StringIsNumber_loop :: "string \<Rightarrow> bool" where
  "StringIsNumber_loop [] = True"
| "StringIsNumber_loop (chr # rest) =
     (if chr < CHR ''0'' \<or> chr > CHR ''9'' then False else StringIsNumber_loop rest)"

definition StringIsNumber :: "string \<Rightarrow> error + bool" where
  "StringIsNumber str =
     (case at str 0 of
        Inl e \<Rightarrow> Inl e
      | Inr chr \<Rightarrow>
          let index = (if chr = CHR ''+'' \<or> chr = CHR ''-'' then 1 else (0::nat))
          in Inr (StringIsNumber_loop (drop index str)))"

text \<open>The loop of \<^verbatim>\<open>StringIsFloat\<close>; the first argument is \<^verbatim>\<open>hasDot\<close>.\<close>

fun StringIsFloat_loop :: "bool \<Rightarrow> string \<Rightarrow> bool" where
  "StringIsFloat_loop hasDot [] = True"
| "StringIsFloat_loop hasDot (chr # rest) =
     (if chr = CHR ''.''
      then (if hasDot then False else StringIsFloat_loop True rest)
      else if chr < CHR ''0'' \<or> chr > CHR ''9'' then False
      else StringIsFloat_loop hasDot rest)"

definition StringIsFloat :: "string \<Rightarrow> error + bool" where
  "StringIsFloat str =
     (case at str 0 of
        Inl e \<Rightarrow> Inl e
      | Inr chr \<Rightarrow>
          let index = (if chr = CHR ''+'' \<or> chr = CHR ''-'' then 1 else (0::nat))
          in Inr (StringIsFloat_loop False (drop index str)))"

definition StringIsBool :: "string \<Rightarrow> bool" where
  "StringIsBool str \<longleftrightarrow>
     str = ''True'' \<or> str = ''true'' \<or> str = ''False'' \<or> str = ''false''"

definition EstimateValueType :: "string \<Rightarrow> error + BgePropertyValueType" where
  "EstimateValueType v =
     (if v = [] then Inr UNKNOWN
      else if StringIsBool v then Inr BOOL
      else case StringIsNumber v of
        Inl e \<Rightarrow> Inl e
      | Inr True \<Rightarrow> Inr INT'
      | Inr False \<Rightarrow>
          (case StringIsFloat v of
             Inl e \<Rightarrow> Inl e
           | Inr True \<Rightarrow> Inr FLOAT
           | Inr False \<Rightarrow> Inr STRING))"

subsection \<open>Trimming\<close>

text \<open>\<^verbatim>\<open>isspace\<close> in the C locale: space, \<^verbatim>\<open>\n \t \r \f \v\<close>.\<close>

definition is_space6 :: "char \<Rightarrow> bool" where
  "is_space6 c \<longleftrightarrow>
     c = CHR '' '' \<or> c = CHR 0x0A \<or> c = CHR 0x09 \<or> c = CHR 0x0D \<or> c = CHR 0x0C \<or> c = CHR 0x0B"

text \<open>\<^verbatim>\<open>str.find_first_not_of(chars)\<close>; \<open>None\<close> is \<^verbatim>\<open>npos\<close>.\<close>

fun find_first_not_of :: "string \<Rightarrow> string \<Rightarrow> nat option" where
  "find_first_not_of chars [] = None"
| "find_first_not_of chars (x # xs) =
     (if x \<notin> set chars then Some 0 else map_option Suc (find_first_not_of chars xs))"

text \<open>The three characters the two trimming loops compare with: tab, newline, space.\<close>

definition is_space3 :: "char \<Rightarrow> bool" where
  "is_space3 c \<longleftrightarrow> c = CHR 0x09 \<or> c = CHR 0x0A \<or> c = CHR '' ''"

function trim_begin_loop :: "string \<Rightarrow> nat \<Rightarrow> nat" where
  "trim_begin_loop str beginIdx =
     (if beginIdx < length str \<and> is_space3 (str ! beginIdx)
      then trim_begin_loop str (beginIdx + 1) else beginIdx)"
  by pat_completeness auto
termination
  by (relation "measure (\<lambda>(str, beginIdx). length str - beginIdx)") auto

text \<open>\<^verbatim>\<open>endIdx\<close> is a signed \<^verbatim>\<open>int\<close> and may reach \<open>-1\<close>.\<close>

function trim_end_loop :: "string \<Rightarrow> int \<Rightarrow> int" where
  "trim_end_loop str endIdx =
     (if endIdx \<ge> 0 \<and> is_space3 (str ! nat endIdx)
      then trim_end_loop str (endIdx - 1) else endIdx)"
  by pat_completeness auto
termination
  by (relation "measure (\<lambda>(str, endIdx). nat (endIdx + 1))") auto

definition StringTrimLeading :: "string \<Rightarrow> string" where
  "StringTrimLeading str =
     (if find_first_not_of [CHR '' '', CHR 0x0A, CHR 0x09, CHR 0x0D, CHR 0x0C, CHR 0x0B] str = None
      then []
      else
        let beginIdx = trim_begin_loop str 0;
            endIdx = trim_end_loop str (int (length str) - 1)
        in if beginIdx = 0 \<and> endIdx = int (length str) - 1 then str
           else substr str beginIdx (nat (endIdx - int beginIdx + 1)))"

text \<open>
  \<^verbatim>\<open>StringTrimComment\<close>: copy characters until a position \<open>i < size - 1\<close> holds
  \<^verbatim>\<open>'/'\<close> followed by \<^verbatim>\<open>'/'\<close>.
\<close>

fun StringTrimComment :: "string \<Rightarrow> string" where
  "StringTrimComment [] = []"
| "StringTrimComment [c] = [c]"
| "StringTrimComment (c # d # rest) =
     (if c = CHR ''/'' \<and> d = CHR ''/'' then []
      else c # StringTrimComment (d # rest))"

declare trim_begin_loop.simps [simp del] trim_end_loop.simps [simp del]

subsection \<open>Properties and sections\<close>

text \<open>
  \<^verbatim>\<open>float\<close> is kept as its 32-bit pattern; the conversions between text and
  \<^verbatim>\<open>float\<close> (\<^verbatim>\<open>std::stod\<close>, \<^verbatim>\<open>std::to_string\<close>) are parameters of the functions
  that call them. \<^verbatim>\<open>int\<close> values are mathematical integers; \<^verbatim>\<open>stoi\<close> below checks
  the 32-bit range as the library does.
\<close>

type_synonym float32 = "32 word"

record BgeConfigProperty =
  Name :: string
  Type :: BgePropertyValueType
  StrValue :: string
  IntValue :: int
  FloatValue :: float32
  BoolValue :: bool


definition BgeConfigProperty6 ::
  "BgePropertyValueType \<Rightarrow> string \<Rightarrow> string \<Rightarrow> int \<Rightarrow> float32 \<Rightarrow> bool \<Rightarrow> BgeConfigProperty"
where
  "BgeConfigProperty6 type name strValue intValue floatValue boolValue =
     \<lparr>Name = name, Type = type, StrValue = strValue, IntValue = intValue,
      FloatValue = floatValue, BoolValue = boolValue\<rparr>"

datatype BgeConfigSection =
  BgeConfigSection (SectionName: string) (mNestedSections: "BgeConfigSection list")
    (mSectionProperties: "BgeConfigProperty list")

record BgeConfig =
  mProperties :: "BgeConfigProperty list"
  mSections :: "BgeConfigSection list"

text \<open>\<^verbatim>\<open>std::find_if\<close>: the index of the first match; \<open>None\<close> is \<^verbatim>\<open>end()\<close>.\<close>

fun find_if :: "('a \<Rightarrow> bool) \<Rightarrow> 'a list \<Rightarrow> nat option" where
  "find_if P [] = None"
| "find_if P (x # xs) = (if P x then Some 0 else map_option Suc (find_if P xs))"

definition GetPropertyIterator :: "BgeConfigProperty list \<Rightarrow> string \<Rightarrow> nat option" where
  "GetPropertyIterator props name = find_if (\<lambda>other. name = Name other) props"

definition GetSectionIterator :: "BgeConfigSection list \<Rightarrow> string \<Rightarrow> nat option" where
  "GetSectionIterator secs name = find_if (\<lambda>other. name = SectionName other) secs"

text \<open>
  A \<^verbatim>\<open>BgeConfigSection*\<close> is the list of vector indices leading from the object the
  call is made on to the section pointed at; \<open>None\<close> is \<^verbatim>\<open>nullptr\<close>. The tree is
  the store: \<open>section_at\<close> reads through a pointer, \<open>section_update\<close> writes.
\<close>

type_synonym section_ptr = "nat list"

fun section_at :: "BgeConfigSection \<Rightarrow> section_ptr \<Rightarrow> BgeConfigSection option" where
  "section_at s [] = Some s"
| "section_at s (i # p) =
     (if i < length (mNestedSections s) then section_at (mNestedSections s ! i) p else None)"

fun section_update :: "BgeConfigSection \<Rightarrow> section_ptr \<Rightarrow> BgeConfigSection \<Rightarrow> BgeConfigSection" where
  "section_update s [] v = v"
| "section_update s (i # p) v =
     BgeConfigSection (SectionName s)
       ((mNestedSections s)[i := section_update (mNestedSections s ! i) p v])
       (mSectionProperties s)"

text \<open>\<open>p->\<close>: dereferencing \<^verbatim>\<open>nullptr\<close> is a fault.\<close>

definition deref ::
  "BgeConfigSection \<Rightarrow> section_ptr option \<Rightarrow> error + (section_ptr \<times> BgeConfigSection)"
where
  "deref this p =
     (case p of
        None \<Rightarrow> Inl null_dereference
      | Some ip \<Rightarrow>
          (case section_at this ip of
             None \<Rightarrow> Inl null_dereference
           | Some s \<Rightarrow> Inr (ip, s)))"

lemma find_first_of_less: "find_first_of c name = Some d \<Longrightarrow> d < length name"
  by (induction name arbitrary: d) (auto split: if_splits)

lemma substr_prefix_shorter [termination_simp]:
  "find_first_of c name = Some d \<Longrightarrow> length (substr name 0 d) < length name"
  by (simp add: substr_def find_first_of_less)

lemma substr_from_shorter [termination_simp]:
  "name \<noteq> [] \<Longrightarrow> length (substr_from name (Suc d)) < length name"
  by (simp add: substr_from_def)

subsection \<open>Addressing inside a section\<close>

function Section_HasSubSection :: "BgeConfigSection \<Rightarrow> string \<Rightarrow> error + bool"
  and Section_GetSubSection :: "BgeConfigSection \<Rightarrow> string \<Rightarrow> error + section_ptr option"
where
  "Section_HasSubSection this name =
     (if name = [] then Inr False
      else case find_first_of CHR ''.'' name of
        None \<Rightarrow> Inr (GetSectionIterator (mNestedSections this) name \<noteq> None)
      | Some sectionDivider \<Rightarrow>
          let sectionName = substr name 0 sectionDivider;
              nextSectionName = substr_from name (sectionDivider + 1)
          in (case Section_HasSubSection this sectionName of
               Inl e \<Rightarrow> Inl e
             | Inr False \<Rightarrow> Inr False
             | Inr True \<Rightarrow>
                 (case Section_GetSubSection this sectionName of
                    Inl e \<Rightarrow> Inl e
                  | Inr p \<Rightarrow>
                      (case deref this p of
                         Inl e \<Rightarrow> Inl e
                       | Inr (ip, sub) \<Rightarrow> Section_HasSubSection sub nextSectionName))))"
| "Section_GetSubSection this name =
     (if name = [] then Inr None
      else case find_first_of CHR ''.'' name of
        None \<Rightarrow>
          Inr (map_option (\<lambda>i. [i]) (GetSectionIterator (mNestedSections this) name))
      | Some sectionDivider \<Rightarrow>
          let sectionName = substr name 0 sectionDivider;
              nextSectionName = substr_from name (sectionDivider + 1)
          in (case Section_HasSubSection this sectionName of
               Inl e \<Rightarrow> Inl e
             | Inr False \<Rightarrow> Inr None
             | Inr True \<Rightarrow>
                 (case Section_GetSubSection this sectionName of
                    Inl e \<Rightarrow> Inl e
                  | Inr p \<Rightarrow>
                      (case deref this p of
                         Inl e \<Rightarrow> Inl e
                       | Inr (ip, sub) \<Rightarrow>
                           (case Section_GetSubSection sub nextSectionName of
                              Inl e \<Rightarrow> Inl e
                            | Inr q \<Rightarrow> Inr (map_option (\<lambda>iq. ip @ iq) q))))))"
  by pat_completeness auto
termination
  by (relation "measure (\<lambda>x. case x of Inl (this, name) \<Rightarrow> length name
                                     | Inr (this, name) \<Rightarrow> length name)")
     (auto simp: substr_prefix_shorter substr_from_shorter)

text \<open>
  \<^verbatim>\<open>Get\<close> returns a \<^verbatim>\<open>BgeConfigProperty*\<close>; the model returns the property
  pointed at, \<open>None\<close> for \<^verbatim>\<open>nullptr\<close>.
\<close>

function Section_Get :: "BgeConfigSection \<Rightarrow> string \<Rightarrow> error + BgeConfigProperty option" where
  "Section_Get this name =
     (if name = [] then Inr None
      else case find_first_of CHR ''.'' name of
        None \<Rightarrow>
          Inr (map_option (\<lambda>i. mSectionProperties this ! i)
                 (GetPropertyIterator (mSectionProperties this) name))
      | Some sectionDivider \<Rightarrow>
          let sectionName = substr name 0 sectionDivider;
              nextSectionName = substr_from name (sectionDivider + 1)
          in (case Section_HasSubSection this sectionName of
               Inl e \<Rightarrow> Inl e
             | Inr False \<Rightarrow> Inr None
             | Inr True \<Rightarrow>
                 (case Section_GetSubSection this sectionName of
                    Inl e \<Rightarrow> Inl e
                  | Inr p \<Rightarrow>
                      (case deref this p of
                         Inl e \<Rightarrow> Inl e
                       | Inr (ip, sub) \<Rightarrow> Section_Get sub nextSectionName))))"
  by pat_completeness auto
termination
  by (relation "measure (\<lambda>(this, name). length name)")
     (auto simp: substr_from_shorter)

function Section_HasProperty :: "BgeConfigSection \<Rightarrow> string \<Rightarrow> error + bool" where
  "Section_HasProperty this name =
     (if name = [] then Inr False
      else case find_first_of CHR ''.'' name of
        None \<Rightarrow> Inr (GetPropertyIterator (mSectionProperties this) name \<noteq> None)
      | Some sectionDivider \<Rightarrow>
          let sectionName = substr name 0 sectionDivider;
              nextSectionName = substr_from name (sectionDivider + 1)
          in (case Section_HasSubSection this sectionName of
               Inl e \<Rightarrow> Inl e
             | Inr False \<Rightarrow> Inr False
             | Inr True \<Rightarrow>
                 (case Section_GetSubSection this sectionName of
                    Inl e \<Rightarrow> Inl e
                  | Inr p \<Rightarrow>
                      (case deref this p of
                         Inl e \<Rightarrow> Inl e
                       | Inr (ip, sub) \<Rightarrow> Section_HasProperty sub nextSectionName))))"
  by pat_completeness auto
termination
  by (relation "measure (\<lambda>(this, name). length name)")
     (auto simp: substr_from_shorter)

text \<open>
  \<^verbatim>\<open>AddSubSection\<close> mutates \<^verbatim>\<open>this\<close> and returns a pointer: the model returns the
  new value of \<^verbatim>\<open>this\<close> with the pointer.
\<close>

function Section_AddSubSection ::
  "BgeConfigSection \<Rightarrow> string \<Rightarrow> error + (BgeConfigSection \<times> section_ptr option)"
where
  "Section_AddSubSection this name =
     (if name = [] then Inr (this, None)
      else case Section_HasSubSection this name of
        Inl e \<Rightarrow> Inl e
      | Inr True \<Rightarrow>
          (case Section_GetSubSection this name of
             Inl e \<Rightarrow> Inl e
           | Inr p \<Rightarrow> Inr (this, p))
      | Inr False \<Rightarrow>
          (case find_first_of CHR ''.'' name of
             None \<Rightarrow>
               Inr (BgeConfigSection (SectionName this)
                      (mNestedSections this @ [BgeConfigSection name [] []])
                      (mSectionProperties this),
                    Some [length (mNestedSections this)])
           | Some sectionDivider \<Rightarrow>
               let sectionName = substr name 0 sectionDivider;
                   nextSectionName = substr_from name (sectionDivider + 1)
               in (case Section_AddSubSection this sectionName of
                    Inl e \<Rightarrow> Inl e
                  | Inr (this1, p) \<Rightarrow>
                      (case deref this1 p of
                         Inl e \<Rightarrow> Inl e
                       | Inr (ip, sub) \<Rightarrow>
                           (case Section_AddSubSection sub nextSectionName of
                              Inl e \<Rightarrow> Inl e
                            | Inr (sub1, q) \<Rightarrow>
                                Inr (section_update this1 ip sub1,
                                     map_option (\<lambda>iq. ip @ iq) q))))))"
  by pat_completeness auto
termination
  by (relation "measure (\<lambda>(this, name). length name)")
     (auto simp: substr_prefix_shorter substr_from_shorter)

text \<open>
  \<^verbatim>\<open>AddProperty\<close> also assigns \<^verbatim>\<open>property.Name\<close> in the caller's object; no caller
  in the header reads it afterwards, and the model returns the new \<^verbatim>\<open>this\<close> only.
\<close>

function Section_AddProperty ::
  "BgeConfigSection \<Rightarrow> string \<Rightarrow> BgeConfigProperty \<Rightarrow> error + BgeConfigSection"
where
  "Section_AddProperty this name property =
     (if name = [] then Inr this
      else case Section_HasProperty this name of
        Inl e \<Rightarrow> Inl e
      | Inr True \<Rightarrow> Inr this
      | Inr False \<Rightarrow>
          (case find_first_of CHR ''.'' name of
             None \<Rightarrow>
               Inr (BgeConfigSection (SectionName this) (mNestedSections this)
                      (mSectionProperties this @ [property\<lparr>Name := name\<rparr>]))
           | Some sectionDivider \<Rightarrow>
               let sectionName = substr name 0 sectionDivider;
                   nextSectionStr = substr_from name (sectionDivider + 1)
               in (case Section_HasSubSection this sectionName of
                    Inl e \<Rightarrow> Inl e
                  | Inr has \<Rightarrow>
                      (case (if \<not> has then Section_AddSubSection this sectionName
                             else map_sum id (Pair this)
                                    (Section_GetSubSection this sectionName)) of
                         Inl e \<Rightarrow> Inl e
                       | Inr (this1, None) \<Rightarrow> Inr this1
                       | Inr (this1, Some ip) \<Rightarrow>
                           (case deref this1 (Some ip) of
                              Inl e \<Rightarrow> Inl e
                            | Inr (ip1, nextSection) \<Rightarrow>
                                (case Section_AddProperty nextSection nextSectionStr property of
                                   Inl e \<Rightarrow> Inl e
                                 | Inr sub1 \<Rightarrow> Inr (section_update this1 ip sub1)))))))"
  by pat_completeness auto
termination
  by (relation "measure (\<lambda>(this, name, property). length name)")
     (auto simp: substr_from_shorter)

subsection \<open>Addressing from the document\<close>

text \<open>
  From a \<^verbatim>\<open>BgeConfig\<close>, the first index of a pointer selects in \<^verbatim>\<open>mSections\<close>,
  the others in \<^verbatim>\<open>mNestedSections\<close>.
\<close>

definition config_section_at :: "BgeConfig \<Rightarrow> section_ptr \<Rightarrow> BgeConfigSection option" where
  "config_section_at this p =
     (case p of
        [] \<Rightarrow> None
      | i # q \<Rightarrow>
          (if i < length (mSections this) then section_at (mSections this ! i) q else None))"

definition config_section_update :: "BgeConfig \<Rightarrow> section_ptr \<Rightarrow> BgeConfigSection \<Rightarrow> BgeConfig" where
  "config_section_update this p v =
     (case p of
        [] \<Rightarrow> this
      | i # q \<Rightarrow>
          this\<lparr>mSections := (mSections this)[i := section_update (mSections this ! i) q v]\<rparr>)"

definition config_deref ::
  "BgeConfig \<Rightarrow> section_ptr option \<Rightarrow> error + (section_ptr \<times> BgeConfigSection)"
where
  "config_deref this p =
     (case p of
        None \<Rightarrow> Inl null_dereference
      | Some ip \<Rightarrow>
          (case config_section_at this ip of
             None \<Rightarrow> Inl null_dereference
           | Some s \<Rightarrow> Inr (ip, s)))"

function HasSection :: "BgeConfig \<Rightarrow> string \<Rightarrow> error + bool"
  and GetSection :: "BgeConfig \<Rightarrow> string \<Rightarrow> error + section_ptr option"
where
  "HasSection this name =
     (if name = [] then Inr False
      else (case find_first_of CHR ''.'' name of
        None \<Rightarrow> Inr (GetSectionIterator (mSections this) name \<noteq> None)
      | Some sectionDivider \<Rightarrow>
          let sectionName = substr name 0 sectionDivider;
              nextSectionName = substr_from name (sectionDivider + 1)
          in (case HasSection this sectionName of
               Inl e \<Rightarrow> Inl e
             | Inr False \<Rightarrow> Inr False
             | Inr True \<Rightarrow>
                 (case GetSection this sectionName of
                    Inl e \<Rightarrow> Inl e
                  | Inr p \<Rightarrow>
                      (case config_deref this p of
                         Inl e \<Rightarrow> Inl e
                       | Inr (ip, sub) \<Rightarrow> Section_HasSubSection sub nextSectionName)))))"
| "GetSection this name =
     (if name = [] then Inr None
      else (case find_first_of CHR ''.'' name of
        None \<Rightarrow> Inr (map_option (\<lambda>i. [i]) (GetSectionIterator (mSections this) name))
      | Some sectionDivider \<Rightarrow>
          let sectionName = substr name 0 sectionDivider;
              nextSectionName = substr_from name (sectionDivider + 1)
          in (case HasSection this sectionName of
               Inl e \<Rightarrow> Inl e
             | Inr False \<Rightarrow> Inr None
             | Inr True \<Rightarrow>
                 (case GetSection this sectionName of
                    Inl e \<Rightarrow> Inl e
                  | Inr p \<Rightarrow>
                      (case config_deref this p of
                         Inl e \<Rightarrow> Inl e
                       | Inr (ip, sub) \<Rightarrow>
                           (case Section_GetSubSection sub nextSectionName of
                              Inl e \<Rightarrow> Inl e
                            | Inr q \<Rightarrow> Inr (map_option (\<lambda>iq. ip @ iq) q)))))))"
  by pat_completeness auto
termination
  by (relation "measure (\<lambda>x. case x of Inl (this, name) \<Rightarrow> length name
                                     | Inr (this, name) \<Rightarrow> length name)")
     (auto simp: substr_prefix_shorter)

definition Get :: "BgeConfig \<Rightarrow> string \<Rightarrow> error + BgeConfigProperty option" where
  "Get this name =
     (if name = [] then Inr None
      else (case find_first_of CHR ''.'' name of
        None \<Rightarrow>
          Inr (map_option (\<lambda>i. mProperties this ! i)
                 (GetPropertyIterator (mProperties this) name))
      | Some sectionDivider \<Rightarrow>
          let sectionName = substr name 0 sectionDivider;
              nextSectionName = substr_from name (sectionDivider + 1)
          in (case HasSection this sectionName of
               Inl e \<Rightarrow> Inl e
             | Inr False \<Rightarrow> Inr None
             | Inr True \<Rightarrow>
                 (case GetSection this sectionName of
                    Inl e \<Rightarrow> Inl e
                  | Inr p \<Rightarrow>
                      (case config_deref this p of
                         Inl e \<Rightarrow> Inl e
                       | Inr (ip, sub) \<Rightarrow> Section_Get sub nextSectionName)))))"

definition HasProperty :: "BgeConfig \<Rightarrow> string \<Rightarrow> error + bool" where
  "HasProperty this name =
     (if name = [] then Inr False
      else (case find_first_of CHR ''.'' name of
        None \<Rightarrow> Inr (GetPropertyIterator (mProperties this) name \<noteq> None)
      | Some sectionDivider \<Rightarrow>
          let sectionName = substr name 0 sectionDivider;
              nextSectionName = substr_from name (sectionDivider + 1)
          in (case HasSection this sectionName of
               Inl e \<Rightarrow> Inl e
             | Inr False \<Rightarrow> Inr False
             | Inr True \<Rightarrow>
                 (case GetSection this sectionName of
                    Inl e \<Rightarrow> Inl e
                  | Inr p \<Rightarrow>
                      (case config_deref this p of
                         Inl e \<Rightarrow> Inl e
                       | Inr (ip, sub) \<Rightarrow> Section_HasProperty sub nextSectionName)))))"

function AddSection :: "BgeConfig \<Rightarrow> string \<Rightarrow> error + (BgeConfig \<times> section_ptr option)" where
  "AddSection this name =
     (if name = [] then Inr (this, None)
      else (case HasSection this name of
        Inl e \<Rightarrow> Inl e
      | Inr True \<Rightarrow>
          (case GetSection this name of
             Inl e \<Rightarrow> Inl e
           | Inr p \<Rightarrow> Inr (this, p))
      | Inr False \<Rightarrow>
          (case find_first_of CHR ''.'' name of
             None \<Rightarrow>
               Inr (this\<lparr>mSections := mSections this @ [BgeConfigSection name [] []]\<rparr>,
                    Some [length (mSections this)])
           | Some sectionDivider \<Rightarrow>
               let sectionName = substr name 0 sectionDivider;
                   nextSectionName = substr_from name (sectionDivider + 1)
               in (case AddSection this sectionName of
                    Inl e \<Rightarrow> Inl e
                  | Inr (this1, p) \<Rightarrow>
                      (case config_deref this1 p of
                         Inl e \<Rightarrow> Inl e
                       | Inr (ip, sub) \<Rightarrow>
                           (case Section_AddSubSection sub nextSectionName of
                              Inl e \<Rightarrow> Inl e
                            | Inr (sub1, q) \<Rightarrow>
                                Inr (config_section_update this1 ip sub1,
                                     map_option (\<lambda>iq. ip @ iq) q)))))))"
  by pat_completeness auto
termination
  by (relation "measure (\<lambda>(this, name). length name)")
     (auto simp: substr_prefix_shorter)

definition AddProperty :: "BgeConfig \<Rightarrow> string \<Rightarrow> BgeConfigProperty \<Rightarrow> error + BgeConfig" where
  "AddProperty this name property =
     (if name = [] then Inr this
      else (case HasProperty this name of
        Inl e \<Rightarrow> Inl e
      | Inr True \<Rightarrow> Inr this
      | Inr False \<Rightarrow>
          (case find_first_of CHR ''.'' name of
             None \<Rightarrow>
               Inr (this\<lparr>mProperties := mProperties this @ [property\<lparr>Name := name\<rparr>]\<rparr>)
           | Some sectionDivider \<Rightarrow>
               let sectionName = substr name 0 sectionDivider;
                   nextSectionStr = substr_from name (sectionDivider + 1)
               in (case HasSection this sectionName of
                    Inl e \<Rightarrow> Inl e
                  | Inr has \<Rightarrow>
                      (case (if \<not> has then AddSection this sectionName
                             else map_sum id (Pair this) (GetSection this sectionName)) of
                         Inl e \<Rightarrow> Inl e
                       | Inr (this1, None) \<Rightarrow> Inr this1
                       | Inr (this1, Some ip) \<Rightarrow>
                           (case config_deref this1 (Some ip) of
                              Inl e \<Rightarrow> Inl e
                            | Inr (ip1, nextSection) \<Rightarrow>
                                (case Section_AddProperty nextSection nextSectionStr property of
                                   Inl e \<Rightarrow> Inl e
                                 | Inr sub1 \<Rightarrow>
                                     Inr (config_section_update this1 ip sub1))))))))"

definition Close :: "BgeConfig \<Rightarrow> BgeConfig" where
  "Close this = this\<lparr>mProperties := [], mSections := []\<rparr>"

subsection \<open>Text and numbers\<close>

text \<open>
  \<^verbatim>\<open>std::stoi\<close>: skips leading white space, reads an optional sign and the longest run
  of decimal digits; throws \<^verbatim>\<open>std::invalid_argument\<close> when there is no digit and
  \<^verbatim>\<open>std::out_of_range\<close> when the value does not fit a 32-bit \<^verbatim>\<open>int\<close>.
\<close>

definition is_digit :: "char \<Rightarrow> bool" where
  "is_digit c \<longleftrightarrow> CHR ''0'' \<le> c \<and> c \<le> CHR ''9''"

definition digits_value :: "string \<Rightarrow> nat" where
  "digits_value ds = foldl (\<lambda>acc c. 10 * acc + (of_char c - 48)) 0 ds"

definition stoi :: "string \<Rightarrow> error + int" where
  "stoi str =
     (let s1 = dropWhile is_space6 str;
          neg = (s1 \<noteq> [] \<and> hd s1 = CHR ''-'');
          s2 = (if s1 \<noteq> [] \<and> (hd s1 = CHR ''-'' \<or> hd s1 = CHR ''+'') then tl s1 else s1);
          ds = takeWhile is_digit s2
      in if ds = [] then Inl invalid_argument
         else let v = (if neg then - int (digits_value ds) else int (digits_value ds))
              in if v < - (2 ^ 31) \<or> 2 ^ 31 - 1 < v then Inl out_of_range else Inr v)"

text \<open>\<^verbatim>\<open>std::to_string(int)\<close>: the decimal digits, after \<^verbatim>\<open>'-'\<close> when negative.\<close>

function to_string_nat :: "nat \<Rightarrow> string" where
  "to_string_nat n =
     (if n < 10 then [char_of (48 + n)]
      else to_string_nat (n div 10) @ [char_of (48 + n mod 10)])"
  by pat_completeness auto
termination
  by (relation "measure (\<lambda>n. n)") auto

definition to_string_int :: "int \<Rightarrow> string" where
  "to_string_int v =
     (if v < 0 then CHR ''-'' # to_string_nat (nat (- v)) else to_string_nat (nat v))"

subsection \<open>The file\<close>

text \<open>
  Modelled from the spec: the line reader and writer \<^verbatim>\<open>BgeFile\<close> (\<^verbatim>\<open>BgeFile.hpp\<close> is
  not among the sources). A file reports whether it opened (\<^verbatim>\<open>Ready\<close>), is read line
  by line without line terminators until the end (\<^verbatim>\<open>ReadLine\<close>, \<^verbatim>\<open>EndOfFile\<close>), and
  \<^verbatim>\<open>WriteLine\<close> appends one line (an empty one without argument). \<open>Lines\<close> is the
  content as a list of lines.
\<close>

record BgeFile =
  Ready :: bool
  Lines :: "string list"

definition WriteLine :: "BgeFile \<Rightarrow> string \<Rightarrow> BgeFile" where
  "WriteLine file text = file\<lparr>Lines := Lines file @ [text]\<rparr>"

subsection \<open>\<^verbatim>\<open>BgeConfig::Open\<close>\<close>

text \<open>
  The \<^verbatim>\<open>switch\<close> that builds the property of an assignment line. \<open>stod\<close> stands for
  \<^verbatim>\<open>std::stod\<close> followed by the conversion to \<^verbatim>\<open>float\<close>. The index
  \<^verbatim>\<open>split1.length() - 1\<close> is a \<^verbatim>\<open>size_t\<close> and wraps around at zero.
\<close>

definition is_quote :: "char \<Rightarrow> bool" where
  "is_quote c \<longleftrightarrow> c = CHR 0x27 \<or> c = CHR 0x22"

definition Open_property ::
  "(string \<Rightarrow> error + float32) \<Rightarrow> BgePropertyValueType \<Rightarrow> string \<Rightarrow> string
     \<Rightarrow> error + BgeConfigProperty"
where
  "Open_property stod estimateType split0 split1 =
     (case estimateType of
        INT' \<Rightarrow>
          (case stoi split1 of
             Inl e \<Rightarrow> Inl e
           | Inr v \<Rightarrow> Inr (BgeConfigProperty6 estimateType split0 split1 v 0 False))
      | FLOAT \<Rightarrow>
          (case stod split1 of
             Inl e \<Rightarrow> Inl e
           | Inr f \<Rightarrow> Inr (BgeConfigProperty6 estimateType split0 split1 0 f False))
      | BOOL \<Rightarrow>
          (let v = (split1 = ''true'' \<or> split1 = ''True'' \<or> split1 = ''1'')
           in Inr (BgeConfigProperty6 estimateType split0 split1 0 0 v))
      | _ \<Rightarrow>
          (if split1 \<noteq> [] then
             (case at split1 0 of
                Inl e \<Rightarrow> Inl e
              | Inr c0 \<Rightarrow>
                  let split1a = (if is_quote c0 then substr_from split1 1 else split1);
                      split1EndIdx = nat ((int (length split1a) - 1) mod 2 ^ 64)
                  in (case at split1a split1EndIdx of
                        Inl e \<Rightarrow> Inl e
                      | Inr c1 \<Rightarrow>
                          let split1b = (if is_quote c1 then substr split1a 0 split1EndIdx
                                         else split1a)
                          in Inr (BgeConfigProperty6 estimateType split0 split1b 0 0 False)))
           else Inr (BgeConfigProperty6 estimateType split0 split1 0 0 False)))"

text \<open>
  One turn of the \<^verbatim>\<open>while\<close> loop. The state is the document and
  \<^verbatim>\<open>currentSection\<close>; the other locals are assigned before they are read.
\<close>

definition Open_line ::
  "(string \<Rightarrow> error + float32) \<Rightarrow> BgeConfig \<times> section_ptr option \<Rightarrow> string
     \<Rightarrow> error + (BgeConfig \<times> section_ptr option)"
where
  "Open_line stod st line =
     (case st of (this, currentSection) \<Rightarrow>
      if length line < 1 then Inr st
      else if substr line 0 2 = ''//'' then Inr st
      else
        let cleanLine = StringTrimLeading (StringTrimComment line)
        in (case at cleanLine 0 of
              Inl e \<Rightarrow> Inl e
            | Inr c0 \<Rightarrow>
                (case (if c0 = CHR ''[''
                       then map_sum id (\<lambda>c. c = CHR '']'')
                              (at cleanLine (length cleanLine - 1))
                       else Inr False) of
                   Inl e \<Rightarrow> Inl e
                 | Inr True \<Rightarrow>
                     (let sectionName = substr cleanLine 1 (length cleanLine - 2)
                      in (case HasSection this sectionName of
                            Inl e \<Rightarrow> Inl e
                          | Inr False \<Rightarrow> AddSection this sectionName
                          | Inr True \<Rightarrow>
                              map_sum id (Pair this) (GetSection this sectionName)))
                 | Inr False \<Rightarrow>
                     (if cleanLine = ''[SECTIONEND]'' then Inr (this, None)
                      else (case find_last_of CHR ''='' cleanLine of
                        None \<Rightarrow> Inr st
                      | Some equalSignIdx \<Rightarrow>
                          let split0 = StringTrimLeading (substr cleanLine 0 equalSignIdx);
                              split1 = StringTrimLeading
                                         (substr cleanLine (equalSignIdx + 1)
                                            (length cleanLine - equalSignIdx - 1))
                          in (case EstimateValueType split1 of
                                Inl e \<Rightarrow> Inl e
                              | Inr estimateType \<Rightarrow>
                                  (case Open_property stod estimateType split0 split1 of
                                     Inl e \<Rightarrow> Inl e
                                   | Inr property \<Rightarrow>
                                       (case currentSection of
                                          Some ip \<Rightarrow>
                                            (case config_deref this (Some ip) of
                                               Inl e \<Rightarrow> Inl e
                                             | Inr (ip1, sec) \<Rightarrow>
                                                 (case Section_AddProperty sec (Name property)
                                                         property of
                                                    Inl e \<Rightarrow> Inl e
                                                  | Inr sec1 \<Rightarrow>
                                                      Inr (config_section_update this ip sec1,
                                                           currentSection)))
                                        | None \<Rightarrow>
                                            map_sum id (\<lambda>this1. (this1, currentSection))
                                              (AddProperty this (Name property) property)))))))))"

fun Open_loop ::
  "(string \<Rightarrow> error + float32) \<Rightarrow> string list \<Rightarrow> BgeConfig \<times> section_ptr option
     \<Rightarrow> error + (BgeConfig \<times> section_ptr option)"
where
  "Open_loop stod [] st = Inr st"
| "Open_loop stod (line # rest) st =
     (case Open_line stod st line of
        Inl e \<Rightarrow> Inl e
      | Inr st1 \<Rightarrow> Open_loop stod rest st1)"

text \<open>
  \<open>file\<close> is what \<^verbatim>\<open>BgeFile(path, false)\<close> gives for the path. An exception leaves
  \<^verbatim>\<open>Open\<close> at once: the result is the error.
\<close>

definition Open :: "(string \<Rightarrow> error + float32) \<Rightarrow> BgeFile \<Rightarrow> BgeConfig \<Rightarrow> error + BgeConfig" where
  "Open stod file this =
     (if \<not> Ready file then Inr this
      else map_sum id fst (Open_loop stod (Lines file) (Close this, None)))"

subsection \<open>\<^verbatim>\<open>Save\<close>\<close>

text \<open>\<open>to_string_float\<close> stands for \<^verbatim>\<open>std::to_string(float)\<close>.\<close>

definition Property_Save :: "(float32 \<Rightarrow> string) \<Rightarrow> BgeConfigProperty \<Rightarrow> BgeFile \<Rightarrow> BgeFile" where
  "Property_Save to_string_float this file =
     WriteLine file
       (Name this @ '' = '' @
        (case Type this of
           INT' \<Rightarrow> to_string_int (IntValue this)
         | FLOAT \<Rightarrow> to_string_float (FloatValue this)
         | BOOL \<Rightarrow> (if BoolValue this then ''true'' else ''false'')
         | _ \<Rightarrow> StrValue this))"

lemma size_nested_section [termination_simp]:
  "sub \<in> set (mNestedSections this) \<Longrightarrow> size sub < size this"
  by (cases this) (auto simp: less_Suc_eq_le size_list_estimation')

fun Section_Save ::
  "(float32 \<Rightarrow> string) \<Rightarrow> BgeConfigSection \<Rightarrow> BgeFile \<Rightarrow> string \<Rightarrow> BgeFile"
where
  "Section_Save to_string_float this file sectionPrefix =
     (let sectionName =
            ''['' @ (if sectionPrefix \<noteq> [] then sectionPrefix @ ''.'' else [])
              @ SectionName this @ '']'';
          file1 = WriteLine file sectionName;
          file2 = fold (Property_Save to_string_float) (mSectionProperties this) file1;
          file3 = WriteLine file2 [];
          newSectionPrefix =
            (if sectionPrefix \<noteq> [] then sectionPrefix @ ''.'' else []) @ SectionName this
      in fold (\<lambda>subSection f. Section_Save to_string_float subSection f newSectionPrefix)
           (mNestedSections this) file3)"


declare Section_HasSubSection.simps [simp del] Section_GetSubSection.simps [simp del]
  Section_Get.simps [simp del] Section_HasProperty.simps [simp del]
  Section_AddSubSection.simps [simp del] Section_AddProperty.simps [simp del]
  HasSection.simps [simp del] GetSection.simps [simp del] AddSection.simps [simp del]
  to_string_nat.simps [simp del] Section_Save.simps [simp del]

text \<open>
  Fixtures for the evaluations below: a float conversion that always throws (no line of
  the inputs used is classified as a float), the empty document and a file whose lines are
  given.
\<close>

definition stod_throws :: "string \<Rightarrow> error + float32" where
  "stod_throws str = Inl invalid_argument"

definition empty_config :: BgeConfig where
  "empty_config = \<lparr>mProperties = [], mSections = []\<rparr>"

definition file_of :: "string list \<Rightarrow> BgeFile" where
  "file_of ls = \<lparr>Ready = True, Lines = ls\<rparr>"

definition missing_file :: BgeFile where
  "missing_file = \<lparr>Ready = False, Lines = []\<rparr>"

lemmas open_eval =
  Open_def Open_line_def substr_def substr_from_def at_def
  StringTrimLeading_def is_space6_def is_space3_def trim_begin_loop.simps
  trim_end_loop.simps Close_def EstimateValueType_def StringIsBool_def StringIsNumber_def
  StringIsFloat_def Open_property_def is_quote_def stoi_def is_digit_def digits_value_def
  empty_config_def file_of_def missing_file_def stod_throws_def

section \<open>Paths, lookups and insertions\<close>

text \<open>
  Facts about the addressing functions: what they do on a name without a dot and on a
  name \<open>a.rest\<close>, that lookups never fault, and what an insertion leaves behind.
\<close>

lemma find_first_of_absent: "c \<notin> set a \<Longrightarrow> find_first_of c a = None"
  by (induction a) auto

lemma find_first_of_present: "c \<notin> set a \<Longrightarrow> find_first_of c (a @ c # rest) = Some (length a)"
  by (induction a) auto

lemma find_first_of_split:
  "find_first_of c name = Some d \<Longrightarrow> c \<notin> set (take d name) \<and> name = take d name @ c # drop (Suc d) name"
proof (induction name arbitrary: d)
  case Nil then show ?case by simp
next
  case (Cons x xs)
  show ?case
  proof (cases "x = c")
    case True with Cons.prems show ?thesis by simp
  next
    case False
    with Cons.prems obtain d' where d': "find_first_of c xs = Some d'" "d = Suc d'"
      by auto
    from Cons.IH [OF d'(1)] False d'(2) show ?thesis by auto
  qed
qed

lemma find_first_of_None_iff: "find_first_of c name = None \<longleftrightarrow> c \<notin> set name"
  by (induction name) auto

lemma find_if_Some:
  "find_if P xs = Some i \<Longrightarrow> i < length xs \<and> P (xs ! i) \<and> (\<forall>j<i. \<not> P (xs ! j))"
proof (induction xs arbitrary: i)
  case Nil then show ?case by simp
next
  case (Cons x xs)
  show ?case
  proof (cases "P x")
    case True with Cons.prems show ?thesis by simp
  next
    case False
    with Cons.prems obtain k where k: "find_if P xs = Some k" "i = Suc k" by auto
    from Cons.IH [OF k(1)] False k(2) show ?thesis
      by (auto simp: less_Suc_eq_0_disj)
  qed
qed

lemma find_if_None_iff: "find_if P xs = None \<longleftrightarrow> (\<forall>x \<in> set xs. \<not> P x)"
  by (induction xs) auto

lemma find_if_append_found: "find_if P xs = Some i \<Longrightarrow> find_if P (xs @ ys) = Some i"
  by (induction xs arbitrary: i) (auto split: if_splits)

lemma find_if_append_new:
  "find_if P xs = None \<Longrightarrow> P x \<Longrightarrow> find_if P (xs @ [x]) = Some (length xs)"
  by (induction xs) (auto split: if_splits)


lemma find_if_cong_map:
  "map f xs = map f ys \<Longrightarrow> find_if (\<lambda>x. Q (f x)) xs = find_if (\<lambda>x. Q (f x)) ys"
proof (induction xs arbitrary: ys)
  case Nil then show ?case by simp
next
  case (Cons x xs)
  then obtain y ys' where "ys = y # ys'" "f x = f y" "map f xs = map f ys'" by auto
  with Cons.IH [of ys'] show ?case by simp
qed

lemma GetSectionIterator_Some:
  "GetSectionIterator secs a = Some i \<Longrightarrow> i < length secs \<and> SectionName (secs ! i) = a"
  unfolding GetSectionIterator_def by (drule find_if_Some) simp


lemma deref_child:
  "i < length (mNestedSections s) \<Longrightarrow> deref s (Some [i]) = Inr ([i], mNestedSections s ! i)"
  by (simp add: deref_def)

lemma map_option_append_single: "map_option ((@) [i]) q = map_option ((#) i) q"
  by (cases q) simp_all

lemma substr_prefix: "substr (a @ c # rest) 0 (length a) = a"
  by (simp add: substr_def)

lemma substr_from_suffix: "substr_from (a @ c # rest) (Suc (length a)) = rest"
  by (simp add: substr_from_def)

lemma Section_HasSubSection_single:
  "CHR ''.'' \<notin> set a \<Longrightarrow>
   Section_HasSubSection s a =
     Inr (a \<noteq> [] \<and> GetSectionIterator (mNestedSections s) a \<noteq> None)"
  by (simp add: Section_HasSubSection.simps [of s a] find_first_of_absent)

lemma Section_GetSubSection_single:
  "CHR ''.'' \<notin> set a \<Longrightarrow>
   Section_GetSubSection s a =
     Inr (if a = [] then None
          else map_option (\<lambda>i. [i]) (GetSectionIterator (mNestedSections s) a))"
  by (simp add: Section_GetSubSection.simps [of s a] find_first_of_absent)

lemma Section_HasSubSection_dot:
  assumes "CHR ''.'' \<notin> set a"
  shows "Section_HasSubSection s (a @ CHR ''.'' # rest) =
     (if a = [] then Inr False
      else case GetSectionIterator (mNestedSections s) a of
        None \<Rightarrow> Inr False
      | Some i \<Rightarrow> Section_HasSubSection (mNestedSections s ! i) rest)"
  using assms
  by (subst Section_HasSubSection.simps)
     (auto simp: find_first_of_present substr_prefix substr_from_suffix
        Section_HasSubSection_single Section_GetSubSection_single deref_child
        dest: GetSectionIterator_Some split: option.splits)

lemma Section_GetSubSection_dot:
  assumes "CHR ''.'' \<notin> set a"
  shows "Section_GetSubSection s (a @ CHR ''.'' # rest) =
     (if a = [] then Inr None
      else case GetSectionIterator (mNestedSections s) a of
        None \<Rightarrow> Inr None
      | Some i \<Rightarrow>
          map_sum id (map_option (Cons i)) (Section_GetSubSection (mNestedSections s ! i) rest))"
proof (cases "GetSectionIterator (mNestedSections s) a")
  case None
  with assms show ?thesis
    by (subst Section_GetSubSection.simps)
       (simp add: find_first_of_present substr_prefix substr_from_suffix
          Section_HasSubSection_single Section_GetSubSection_single)
next
  case (Some i)
  then have "i < length (mNestedSections s)"
    by (simp add: GetSectionIterator_Some)
  with assms Some show ?thesis
    by (subst Section_GetSubSection.simps)
       (simp add: find_first_of_present substr_prefix substr_from_suffix
          Section_HasSubSection_single Section_GetSubSection_single deref_child
          map_option_append_single split: sum.splits)
qed

lemma Section_Get_single:
  "CHR ''.'' \<notin> set a \<Longrightarrow>
   Section_Get s a =
     Inr (if a = [] then None
          else map_option (\<lambda>i. mSectionProperties s ! i)
                 (GetPropertyIterator (mSectionProperties s) a))"
  by (simp add: Section_Get.simps [of s a] find_first_of_absent)

lemma Section_Get_dot:
  assumes "CHR ''.'' \<notin> set a"
  shows "Section_Get s (a @ CHR ''.'' # rest) =
     (if a = [] then Inr None
      else case GetSectionIterator (mNestedSections s) a of
        None \<Rightarrow> Inr None
      | Some i \<Rightarrow> Section_Get (mNestedSections s ! i) rest)"
  using assms
  by (subst Section_Get.simps)
     (auto simp: find_first_of_present substr_prefix substr_from_suffix
        Section_HasSubSection_single Section_GetSubSection_single deref_child
        dest: GetSectionIterator_Some split: option.splits)

lemma Section_HasProperty_single:
  "CHR ''.'' \<notin> set a \<Longrightarrow>
   Section_HasProperty s a =
     Inr (a \<noteq> [] \<and> GetPropertyIterator (mSectionProperties s) a \<noteq> None)"
  by (simp add: Section_HasProperty.simps [of s a] find_first_of_absent)

lemma Section_HasProperty_dot:
  assumes "CHR ''.'' \<notin> set a"
  shows "Section_HasProperty s (a @ CHR ''.'' # rest) =
     (if a = [] then Inr False
      else case GetSectionIterator (mNestedSections s) a of
        None \<Rightarrow> Inr False
      | Some i \<Rightarrow> Section_HasProperty (mNestedSections s ! i) rest)"
  using assms
  by (subst Section_HasProperty.simps)
     (auto simp: find_first_of_present substr_prefix substr_from_suffix
        Section_HasSubSection_single Section_GetSubSection_single deref_child
        dest: GetSectionIterator_Some split: option.splits)

lemma dotted_induct [case_names single dot]:
  assumes single: "\<And>a. CHR ''.'' \<notin> set a \<Longrightarrow> P a"
    and dot: "\<And>a rest. CHR ''.'' \<notin> set a \<Longrightarrow> P rest \<Longrightarrow> P (a @ CHR ''.'' # rest)"
  shows "P name"
proof (induction name rule: length_induct)
  case (1 name)
  show ?case
  proof (cases "find_first_of CHR ''.'' name")
    case None
    then show ?thesis by (simp add: single find_first_of_None_iff)
  next
    case (Some d)
    from find_first_of_split [OF Some]
    have a: "CHR ''.'' \<notin> set (take d name)"
      and eq: "name = take d name @ CHR ''.'' # drop (Suc d) name" by blast+
    have "length (drop (Suc d) name) < length name"
      using find_first_of_less [OF Some] by simp
    with 1 have "P (drop (Suc d) name)" by blast
    from dot [OF a this] eq show ?thesis by simp
  qed
qed

lemma Section_lookup_total:
  "\<exists>p. Section_GetSubSection s name = Inr p \<and> Section_HasSubSection s name = Inr (p \<noteq> None)"
proof (induction name arbitrary: s rule: dotted_induct)
  case (single a)
  then show ?case
    by (simp add: Section_GetSubSection_single Section_HasSubSection_single)
next
  case (dot a rest)
  show ?case
  proof (cases "GetSectionIterator (mNestedSections s) a")
    case None
    with dot.hyps show ?thesis
      by (simp add: Section_GetSubSection_dot Section_HasSubSection_dot)
  next
    case (Some i)
    from dot.IH [of "mNestedSections s ! i"] obtain p where
      "Section_GetSubSection (mNestedSections s ! i) rest = Inr p"
      "Section_HasSubSection (mNestedSections s ! i) rest = Inr (p \<noteq> None)" by blast
    with dot.hyps Some show ?thesis
      by (simp add: Section_GetSubSection_dot Section_HasSubSection_dot)
  qed
qed

lemma Section_HasSubSection_True:
  "Section_HasSubSection s name = Inr True \<Longrightarrow> \<exists>ip. Section_GetSubSection s name = Inr (Some ip)"
  using Section_lookup_total [of s name] by auto

lemma Section_HasSubSection_False:
  "Section_HasSubSection s name = Inr False \<Longrightarrow> Section_GetSubSection s name = Inr None"
  using Section_lookup_total [of s name] by auto

lemma Section_HasSubSection_no_fault: "Section_HasSubSection s name \<noteq> Inl e"
  using Section_lookup_total [of s name] by auto

definition set_child :: "BgeConfigSection \<Rightarrow> nat \<Rightarrow> BgeConfigSection \<Rightarrow> BgeConfigSection" where
  "set_child s i c =
     BgeConfigSection (SectionName s) ((mNestedSections s)[i := c]) (mSectionProperties s)"

definition add_child :: "BgeConfigSection \<Rightarrow> BgeConfigSection \<Rightarrow> BgeConfigSection" where
  "add_child s c =
     BgeConfigSection (SectionName s) (mNestedSections s @ [c]) (mSectionProperties s)"

lemma section_update_single: "section_update s [i] c = set_child s i c"
  by (simp add: set_child_def)

lemma set_child_same: "set_child s i (mNestedSections s ! i) = s"
  by (simp add: set_child_def)

lemma set_child_add_child:
  "set_child (add_child s c) (length (mNestedSections s)) c' = add_child s c'"
  by (simp add: set_child_def add_child_def)

lemma set_child_sel [simp]:
  "SectionName (set_child s i c) = SectionName s"
  "mSectionProperties (set_child s i c) = mSectionProperties s"
  "mNestedSections (set_child s i c) = (mNestedSections s)[i := c]"
  by (simp_all add: set_child_def)

lemma add_child_sel [simp]:
  "SectionName (add_child s c) = SectionName s"
  "mSectionProperties (add_child s c) = mSectionProperties s"
  "mNestedSections (add_child s c) = mNestedSections s @ [c]"
  by (simp_all add: add_child_def)

lemma Section_AddSubSection_single:
  assumes "CHR ''.'' \<notin> set a" "a \<noteq> []"
  shows "Section_AddSubSection s a =
     Inr (case GetSectionIterator (mNestedSections s) a of
            Some i \<Rightarrow> (s, Some [i])
          | None \<Rightarrow> (add_child s (BgeConfigSection a [] []), Some [length (mNestedSections s)]))"
proof (cases "GetSectionIterator (mNestedSections s) a")
  case None
  with assms show ?thesis
    by (subst Section_AddSubSection.simps)
       (simp add: Section_HasSubSection_single find_first_of_absent add_child_def)
next
  case (Some i)
  with assms show ?thesis
    by (subst Section_AddSubSection.simps)
       (simp add: Section_HasSubSection_single Section_GetSubSection_single)
qed

lemma Section_AddSubSection_present:
  assumes "Section_HasSubSection s name = Inr True"
  shows "Section_AddSubSection s name = map_sum id (Pair s) (Section_GetSubSection s name)"
proof -
  from assms have "name \<noteq> []"
    by (auto simp: Section_HasSubSection.simps [of s "[]"])
  with assms Section_HasSubSection_True [OF assms] show ?thesis
    by (subst Section_AddSubSection.simps) auto
qed

lemma Section_AddSubSection_empty_head:
  "Section_AddSubSection s (CHR ''.'' # rest) = Inl null_dereference"
proof -
  have "Section_HasSubSection s (CHR ''.'' # rest) = Inr False"
    using Section_HasSubSection_dot [of "[]" s rest] by simp
  moreover have "find_first_of CHR ''.'' (CHR ''.'' # rest) = Some 0" by simp
  moreover have "Section_AddSubSection s [] = Inr (s, None)"
    by (simp add: Section_AddSubSection.simps [of s "[]"])
  ultimately show ?thesis
    by (subst Section_AddSubSection.simps) (simp add: substr_def deref_def)
qed

lemma Section_AddSubSection_dot_absent:
  assumes "CHR ''.'' \<notin> set a" "a \<noteq> []"
    and "Section_HasSubSection s (a @ CHR ''.'' # rest) = Inr False"
  shows "Section_AddSubSection s (a @ CHR ''.'' # rest) =
     (case GetSectionIterator (mNestedSections s) a of
        Some i \<Rightarrow>
          (case Section_AddSubSection (mNestedSections s ! i) rest of
             Inl e \<Rightarrow> Inl e
           | Inr (sub1, q) \<Rightarrow> Inr (set_child s i sub1, map_option (Cons i) q))
      | None \<Rightarrow>
          (case Section_AddSubSection (BgeConfigSection a [] []) rest of
             Inl e \<Rightarrow> Inl e
           | Inr (sub1, q) \<Rightarrow>
               Inr (add_child s sub1, map_option (Cons (length (mNestedSections s))) q)))"
proof (cases "GetSectionIterator (mNestedSections s) a")
  case None
  have step: "Section_AddSubSection s a =
      Inr (add_child s (BgeConfigSection a [] []), Some [length (mNestedSections s)])"
    using assms(1,2) None by (simp add: Section_AddSubSection_single)
  have d: "deref (add_child s (BgeConfigSection a [] [])) (Some [length (mNestedSections s)])
      = Inr ([length (mNestedSections s)], BgeConfigSection a [] [])"
    by (simp add: deref_def)
  show ?thesis
    using assms None
    by (subst Section_AddSubSection.simps)
       (simp add: find_first_of_present substr_prefix substr_from_suffix step d
          add_child_def [symmetric] map_option_append_single
          split: sum.splits prod.splits)
next
  case (Some i)
  then have i: "i < length (mNestedSections s)"
    by (simp add: GetSectionIterator_Some)
  have step: "Section_AddSubSection s a = Inr (s, Some [i])"
    using assms(1,2) Some by (simp add: Section_AddSubSection_single)
  show ?thesis
    using assms Some
    by (subst Section_AddSubSection.simps)
       (simp add: find_first_of_present substr_prefix substr_from_suffix step
          deref_child [OF i] set_child_def [symmetric] map_option_append_single
          split: sum.splits prod.splits)
qed

lemma GetSectionIterator_update:
  assumes "i < length secs" "SectionName c = SectionName (secs ! i)"
  shows "GetSectionIterator (secs[i := c]) a = GetSectionIterator secs a"
proof -
  have "map SectionName (secs[i := c]) = map SectionName secs"
    using assms by (simp add: map_update list_update_same_conv)
  then show ?thesis
    unfolding GetSectionIterator_def
    by (rule find_if_cong_map [where f = SectionName and Q = "\<lambda>n. a = n"])
qed

lemma GetSectionIterator_append_new:
  "GetSectionIterator secs a = None \<Longrightarrow> SectionName c = a \<Longrightarrow>
   GetSectionIterator (secs @ [c]) a = Some (length secs)"
  unfolding GetSectionIterator_def by (rule find_if_append_new) simp_all

lemma GetSectionIterator_append_found:
  "GetSectionIterator secs a = Some i \<Longrightarrow> GetSectionIterator (secs @ cs) a = Some i"
  unfolding GetSectionIterator_def by (rule find_if_append_found)

text \<open>What a second call sees below a child that the first call went through.\<close>

lemma Section_AddSubSection_descend:
  assumes a: "CHR ''.'' \<notin> set a" "a \<noteq> []"
    and it: "GetSectionIterator (mNestedSections s1) a = Some i"
    and sub: "mNestedSections s1 ! i = sub1"
    and G: "Section_GetSubSection sub1 rest = Inr q"
    and H: "Section_HasSubSection sub1 rest = Inr (q \<noteq> None)"
    and A: "Section_AddSubSection sub1 rest = Inr (sub1, q)"
  shows "Section_GetSubSection s1 (a @ CHR ''.'' # rest) = Inr (map_option (Cons i) q) \<and>
         Section_HasSubSection s1 (a @ CHR ''.'' # rest) = Inr (q \<noteq> None) \<and>
         Section_AddSubSection s1 (a @ CHR ''.'' # rest) = Inr (s1, map_option (Cons i) q)"
proof -
  have g: "Section_GetSubSection s1 (a @ CHR ''.'' # rest) = Inr (map_option (Cons i) q)"
    using a it sub G by (simp add: Section_GetSubSection_dot)
  have h: "Section_HasSubSection s1 (a @ CHR ''.'' # rest) = Inr (q \<noteq> None)"
    using a it sub H by (simp add: Section_HasSubSection_dot)
  have "Section_AddSubSection s1 (a @ CHR ''.'' # rest) = Inr (s1, map_option (Cons i) q)"
  proof (cases q)
    case None
    with h have "Section_HasSubSection s1 (a @ CHR ''.'' # rest) = Inr False" by simp
    from Section_AddSubSection_dot_absent [OF a this] it sub A None
    show ?thesis using set_child_same [of s1 i] by simp
  next
    case (Some ip)
    with h have "Section_HasSubSection s1 (a @ CHR ''.'' # rest) = Inr True" by simp
    from Section_AddSubSection_present [OF this] g show ?thesis by simp
  qed
  with g h show ?thesis by blast
qed

lemma Section_AddSubSection_post:
  "Section_AddSubSection s name = Inr (s1, p) \<Longrightarrow>
   Section_GetSubSection s1 name = Inr p \<and>
   Section_HasSubSection s1 name = Inr (p \<noteq> None) \<and>
   Section_AddSubSection s1 name = Inr (s1, p) \<and>
   SectionName s1 = SectionName s \<and>
   mSectionProperties s1 = mSectionProperties s"
proof (induction name arbitrary: s s1 p rule: dotted_induct)
  case (single a)
  show ?case
  proof (cases "a = []")
    case True
    with single.prems show ?thesis
      by (simp add: Section_AddSubSection.simps [of _ "[]"]
          Section_GetSubSection.simps [of _ "[]"] Section_HasSubSection.simps [of _ "[]"])
  next
    case False
    note single' = Section_AddSubSection_single [OF single.hyps False]
      Section_GetSubSection_single [OF single.hyps] Section_HasSubSection_single [OF single.hyps]
    show ?thesis
    proof (cases "GetSectionIterator (mNestedSections s) a")
      case None
      with single.prems False have s1: "s1 = add_child s (BgeConfigSection a [] [])"
        and p: "p = Some [length (mNestedSections s)]"
        by (simp_all add: single')
      have "GetSectionIterator (mNestedSections s1) a = Some (length (mNestedSections s))"
        unfolding s1 using None by (simp add: GetSectionIterator_append_new)
      with False p show ?thesis by (simp add: single' s1)
    next
      case (Some i)
      with single.prems False show ?thesis by (auto simp: single')
    qed
  qed
next
  case (dot a rest)
  let ?name = "a @ CHR ''.'' # rest"
  obtain b where b: "Section_HasSubSection s ?name = Inr b"
    using Section_lookup_total [of s ?name] by blast
  show ?case
  proof (cases b)
    case True
    with b have "Section_HasSubSection s ?name = Inr True" by simp
    from Section_HasSubSection_True [OF this]
    obtain ip where ip: "Section_GetSubSection s ?name = Inr (Some ip)" by blast
    from True b have pres: "Section_AddSubSection s ?name = Inr (s, Some ip)"
      by (simp add: Section_AddSubSection_present ip)
    with dot.prems have "s1 = s" "p = Some ip" by simp_all
    with pres ip b True show ?thesis by simp
  next
    case False
    with b have absent: "Section_HasSubSection s ?name = Inr False" by simp
    have a: "a \<noteq> []"
    proof
      assume "a = []"
      with dot.prems show False by (simp add: Section_AddSubSection_empty_head)
    qed
    note step = Section_AddSubSection_dot_absent [OF dot.hyps a absent]
    show ?thesis
    proof (cases "GetSectionIterator (mNestedSections s) a")
      case None
      with step dot.prems obtain sub1 q where
        r: "Section_AddSubSection (BgeConfigSection a [] []) rest = Inr (sub1, q)"
        and s1: "s1 = add_child s sub1"
        and p: "p = map_option (Cons (length (mNestedSections s))) q"
        by (auto split: sum.splits)
      from dot.IH [OF r] have ih:
        "Section_GetSubSection sub1 rest = Inr q"
        "Section_HasSubSection sub1 rest = Inr (q \<noteq> None)"
        "Section_AddSubSection sub1 rest = Inr (sub1, q)"
        "SectionName sub1 = a" by simp_all
      have it: "GetSectionIterator (mNestedSections s1) a = Some (length (mNestedSections s))"
        unfolding s1 using None ih(4) by (simp add: GetSectionIterator_append_new)
      have "mNestedSections s1 ! length (mNestedSections s) = sub1"
        by (simp add: s1)
      from Section_AddSubSection_descend [OF dot.hyps a it this ih(1-3)] p s1
      show ?thesis by (cases q) simp_all
    next
      case (Some i)
      then have i: "i < length (mNestedSections s)" "SectionName (mNestedSections s ! i) = a"
        by (simp_all add: GetSectionIterator_Some)
      from Some step dot.prems obtain sub1 q where
        r: "Section_AddSubSection (mNestedSections s ! i) rest = Inr (sub1, q)"
        and s1: "s1 = set_child s i sub1"
        and p: "p = map_option (Cons i) q"
        by (auto split: sum.splits)
      from dot.IH [OF r] i have ih:
        "Section_GetSubSection sub1 rest = Inr q"
        "Section_HasSubSection sub1 rest = Inr (q \<noteq> None)"
        "Section_AddSubSection sub1 rest = Inr (sub1, q)"
        "SectionName sub1 = SectionName (mNestedSections s ! i)" by simp_all
      have it: "GetSectionIterator (mNestedSections s1) a = Some i"
        unfolding s1 using Some i ih(4) by (simp add: GetSectionIterator_update)
      have "mNestedSections s1 ! i = sub1"
        using i by (simp add: s1)
      from Section_AddSubSection_descend [OF dot.hyps a it this ih(1-3)] p s1
      show ?thesis by (cases q) simp_all
    qed
  qed
qed

definition add_property :: "BgeConfigSection \<Rightarrow> BgeConfigProperty \<Rightarrow> BgeConfigSection" where
  "add_property s pr =
     BgeConfigSection (SectionName s) (mNestedSections s) (mSectionProperties s @ [pr])"

lemma add_property_sel [simp]:
  "SectionName (add_property s pr) = SectionName s"
  "mSectionProperties (add_property s pr) = mSectionProperties s @ [pr]"
  "mNestedSections (add_property s pr) = mNestedSections s"
  by (simp_all add: add_property_def)

lemma Section_property_total:
  "\<exists>g. Section_Get s name = Inr g \<and> Section_HasProperty s name = Inr (g \<noteq> None)"
proof (induction name arbitrary: s rule: dotted_induct)
  case (single a)
  then show ?case
    by (simp add: Section_Get_single Section_HasProperty_single)
next
  case (dot a rest)
  show ?case
  proof (cases "GetSectionIterator (mNestedSections s) a")
    case None
    with dot.hyps show ?thesis
      by (simp add: Section_Get_dot Section_HasProperty_dot)
  next
    case (Some i)
    from dot.IH [of "mNestedSections s ! i"] dot.hyps Some show ?thesis
      by (simp add: Section_Get_dot Section_HasProperty_dot)
  qed
qed

lemma Section_AddProperty_present:
  assumes "Section_HasProperty s name = Inr True"
  shows "Section_AddProperty s name pr = Inr s"
  using assms by (subst Section_AddProperty.simps) simp

lemma Section_AddProperty_single:
  assumes "CHR ''.'' \<notin> set a" "a \<noteq> []"
  shows "Section_AddProperty s a pr =
     Inr (if GetPropertyIterator (mSectionProperties s) a \<noteq> None then s
          else add_property s (pr\<lparr>Name := a\<rparr>))"
  using assms
  by (subst Section_AddProperty.simps)
     (simp add: Section_HasProperty_single find_first_of_absent add_property_def)

lemma Section_AddProperty_dot_absent:
  assumes "CHR ''.'' \<notin> set a"
    and "Section_HasProperty s (a @ CHR ''.'' # rest) = Inr False"
  shows "Section_AddProperty s (a @ CHR ''.'' # rest) pr =
     (if a = [] then Inr s
      else case GetSectionIterator (mNestedSections s) a of
        Some i \<Rightarrow>
          (case Section_AddProperty (mNestedSections s ! i) rest pr of
             Inl e \<Rightarrow> Inl e
           | Inr sub1 \<Rightarrow> Inr (set_child s i sub1))
      | None \<Rightarrow>
          (case Section_AddProperty (BgeConfigSection a [] []) rest pr of
             Inl e \<Rightarrow> Inl e
           | Inr sub1 \<Rightarrow> Inr (add_child s sub1)))"
proof (cases "a = []")
  case True
  have "Section_HasSubSection s [] = Inr False"
    by (simp add: Section_HasSubSection.simps [of s "[]"])
  moreover have "Section_AddSubSection s [] = Inr (s, None)"
    by (simp add: Section_AddSubSection.simps [of s "[]"])
  ultimately show ?thesis
    using assms True
    by (subst Section_AddProperty.simps) (simp add: substr_def)
next
  case False
  show ?thesis
  proof (cases "GetSectionIterator (mNestedSections s) a")
    case None
    have d: "deref (add_child s (BgeConfigSection a [] [])) (Some [length (mNestedSections s)])
        = Inr ([length (mNestedSections s)], BgeConfigSection a [] [])"
      by (simp add: deref_def)
    show ?thesis
      using assms False None
      by (subst Section_AddProperty.simps)
         (simp add: find_first_of_present substr_prefix substr_from_suffix
            Section_HasSubSection_single Section_AddSubSection_single d
            add_child_def [symmetric] split: sum.splits)
  next
    case (Some i)
    then have i: "i < length (mNestedSections s)"
      by (simp add: GetSectionIterator_Some)
    show ?thesis
      using assms False Some
      by (subst Section_AddProperty.simps)
         (simp add: find_first_of_present substr_prefix substr_from_suffix
            Section_HasSubSection_single Section_GetSubSection_single deref_child [OF i]
            set_child_def [symmetric] split: sum.splits)
  qed
qed

lemma GetPropertyIterator_append_new:
  "GetPropertyIterator props a = None \<Longrightarrow> Name pr = a \<Longrightarrow>
   GetPropertyIterator (props @ [pr]) a = Some (length props)"
  unfolding GetPropertyIterator_def by (rule find_if_append_new) simp_all

lemma GetPropertyIterator_append_found:
  "GetPropertyIterator props a = Some i \<Longrightarrow> GetPropertyIterator (props @ ps) a = Some i"
  unfolding GetPropertyIterator_def by (rule find_if_append_found)

lemma Section_AddProperty_post:
  "Section_AddProperty s name pr = Inr s1 \<Longrightarrow>
   Section_AddProperty s1 name pr' = Inr s1 \<and> SectionName s1 = SectionName s"
proof (induction name arbitrary: s s1 rule: dotted_induct)
  case (single a)
  show ?case
  proof (cases "a = []")
    case True
    with single.prems show ?thesis
      by (simp add: Section_AddProperty.simps [of _ "[]"])
  next
    case False
    note single' = Section_AddProperty_single [OF single.hyps False]
    show ?thesis
    proof (cases "GetPropertyIterator (mSectionProperties s) a")
      case None
      with single.prems have s1: "s1 = add_property s (pr\<lparr>Name := a\<rparr>)"
        by (simp add: single')
      have "GetPropertyIterator (mSectionProperties s1) a = Some (length (mSectionProperties s))"
        unfolding s1 using None by (simp add: GetPropertyIterator_append_new)
      then show ?thesis by (simp add: single' s1)
    next
      case (Some i)
      with single.prems show ?thesis by (auto simp: single')
    qed
  qed
next
  case (dot a rest)
  let ?name = "a @ CHR ''.'' # rest"
  obtain b where b: "Section_HasProperty s ?name = Inr b"
    using Section_property_total [of s ?name] by blast
  obtain b1 where b1: "Section_HasProperty s1 ?name = Inr b1"
    using Section_property_total [of s1 ?name] by blast
  show ?case
  proof (cases b)
    case True
    with b have "Section_AddProperty s ?name pr = Inr s"
      by (simp add: Section_AddProperty_present)
    with dot.prems have "s1 = s" by simp
    with b True show ?thesis by (simp add: Section_AddProperty_present)
  next
    case False
    with b have absent: "Section_HasProperty s ?name = Inr False" by simp
    note step = Section_AddProperty_dot_absent [OF dot.hyps absent, of pr]
    show ?thesis
    proof (cases "a = []")
      case True
      with step dot.prems have "s1 = s" by simp
      with True absent show ?thesis
        using Section_AddProperty_dot_absent [OF dot.hyps absent, of pr'] by simp
    next
      case a: False
      have descend: "Section_AddProperty s1 ?name pr' = Inr s1"
        if it: "GetSectionIterator (mNestedSections s1) a = Some i"
          and sub: "mNestedSections s1 ! i = sub1"
          and A: "Section_AddProperty sub1 rest pr' = Inr sub1" for i sub1
      proof (cases b1)
        case True
        with b1 show ?thesis by (simp add: Section_AddProperty_present)
      next
        case False
        with b1 have "Section_HasProperty s1 ?name = Inr False" by simp
        from Section_AddProperty_dot_absent [OF dot.hyps this, of pr'] a it sub A
        show ?thesis using set_child_same [of s1 i] by simp
      qed
      show ?thesis
      proof (cases "GetSectionIterator (mNestedSections s) a")
        case None
        with step a dot.prems obtain sub1 where
          r: "Section_AddProperty (BgeConfigSection a [] []) rest pr = Inr sub1"
          and s1: "s1 = add_child s sub1"
          by (auto split: sum.splits)
        from dot.IH [OF r] have ih:
          "Section_AddProperty sub1 rest pr' = Inr sub1" "SectionName sub1 = a" by simp_all
        have it: "GetSectionIterator (mNestedSections s1) a = Some (length (mNestedSections s))"
          unfolding s1 using None ih(2) by (simp add: GetSectionIterator_append_new)
        have "mNestedSections s1 ! length (mNestedSections s) = sub1"
          by (simp add: s1)
        from descend [OF it this ih(1)] s1 show ?thesis by simp
      next
        case (Some i)
        then have i: "i < length (mNestedSections s)"
          by (simp add: GetSectionIterator_Some)
        from Some step a dot.prems obtain sub1 where
          r: "Section_AddProperty (mNestedSections s ! i) rest pr = Inr sub1"
          and s1: "s1 = set_child s i sub1"
          by (auto split: sum.splits)
        from dot.IH [OF r] have ih:
          "Section_AddProperty sub1 rest pr' = Inr sub1"
          "SectionName sub1 = SectionName (mNestedSections s ! i)" by simp_all
        have it: "GetSectionIterator (mNestedSections s1) a = Some i"
          unfolding s1 using Some i ih(2) by (simp add: GetSectionIterator_update)
        have "mNestedSections s1 ! i = sub1"
          using i by (simp add: s1)
        from descend [OF it this ih(1)] s1 show ?thesis by simp
      qed
    qed
  qed
qed


definition root_section :: "BgeConfig \<Rightarrow> BgeConfigSection" where
  "root_section this = BgeConfigSection [] (mSections this) (mProperties this)"

definition config_of :: "BgeConfigSection \<Rightarrow> BgeConfig" where
  "config_of s = \<lparr>mProperties = mSectionProperties s, mSections = mNestedSections s\<rparr>"

lemma root_section_sel [simp]:
  "SectionName (root_section this) = []"
  "mNestedSections (root_section this) = mSections this"
  "mSectionProperties (root_section this) = mProperties this"
  by (simp_all add: root_section_def)

lemma config_of_sel [simp]:
  "mSections (config_of s) = mNestedSections s"
  "mProperties (config_of s) = mSectionProperties s"
  by (simp_all add: config_of_def)

lemma config_of_root [simp]: "config_of (root_section this) = this"
  by (simp add: config_of_def)

lemma root_of_config: "SectionName s = [] \<Longrightarrow> root_section (config_of s) = s"
  by (cases s) (simp add: root_section_def)

lemma config_deref_child:
  "i < length (mSections this) \<Longrightarrow> config_deref this (Some [i]) = Inr ([i], mSections this ! i)"
  by (simp add: config_deref_def config_section_at_def)

lemma HasSection_single:
  "CHR ''.'' \<notin> set a \<Longrightarrow>
   HasSection this a = Inr (a \<noteq> [] \<and> GetSectionIterator (mSections this) a \<noteq> None)"
  by (simp add: HasSection.simps [of this a] find_first_of_absent)

lemma GetSection_single:
  "CHR ''.'' \<notin> set a \<Longrightarrow>
   GetSection this a =
     Inr (if a = [] then None else map_option (\<lambda>i. [i]) (GetSectionIterator (mSections this) a))"
  by (simp add: GetSection.simps [of this a] find_first_of_absent)




lemma HasProperty_root: "HasProperty this name = Section_HasProperty (root_section this) name"
proof (cases "find_first_of CHR ''.'' name")
  case None
  then have "CHR ''.'' \<notin> set name" by (simp add: find_first_of_None_iff)
  with None show ?thesis by (simp add: HasProperty_def Section_HasProperty_single)
next
  case (Some d)
  from find_first_of_split [OF Some] obtain a rest where
    a: "CHR ''.'' \<notin> set a" and name: "name = a @ CHR ''.'' # rest" by blast
  show ?thesis
  proof (cases "GetSectionIterator (mSections this) a")
    case None
    with a show ?thesis
      unfolding name HasProperty_def
      by (simp add: find_first_of_present substr_prefix substr_from_suffix
            HasSection_single Section_HasProperty_dot)
  next
    case (Some i)
    then have "i < length (mSections this)" by (simp add: GetSectionIterator_Some)
    with a Some show ?thesis
      unfolding name HasProperty_def
      by (simp add: find_first_of_present substr_prefix substr_from_suffix
            HasSection_single GetSection_single config_deref_child Section_HasProperty_dot)
  qed
qed

lemma config_of_add_child:
  "config_of (add_child (root_section this) c) = this\<lparr>mSections := mSections this @ [c]\<rparr>"
  by (simp add: config_of_def)

lemma config_of_set_child:
  "config_of (set_child (root_section this) i c) = this\<lparr>mSections := (mSections this)[i := c]\<rparr>"
  by (simp add: config_of_def)

lemma config_of_add_property:
  "config_of (add_property (root_section this) pr) = this\<lparr>mProperties := mProperties this @ [pr]\<rparr>"
  by (simp add: config_of_def)

lemma AddSection_single:
  assumes "CHR ''.'' \<notin> set a" "a \<noteq> []"
  shows "AddSection this a =
     Inr (case GetSectionIterator (mSections this) a of
            Some i \<Rightarrow> (this, Some [i])
          | None \<Rightarrow> (this\<lparr>mSections := mSections this @ [BgeConfigSection a [] []]\<rparr>,
                     Some [length (mSections this)]))"
proof (cases "GetSectionIterator (mSections this) a")
  case None
  with assms show ?thesis
    by (subst AddSection.simps) (simp add: HasSection_single find_first_of_absent)
next
  case (Some i)
  with assms show ?thesis
    by (subst AddSection.simps) (simp add: HasSection_single GetSection_single)
qed


lemma AddProperty_root:
  "AddProperty this name pr = map_sum id config_of (Section_AddProperty (root_section this) name pr)"
proof (cases "name = []")
  case True
  then show ?thesis
    by (simp add: AddProperty_def Section_AddProperty.simps [of _ "[]"])
next
  case nonempty: False
  obtain b where b: "Section_HasProperty (root_section this) name = Inr b"
    using Section_property_total [of "root_section this" name] by blast
  show ?thesis
  proof (cases b)
    case True
    with b nonempty show ?thesis
      by (simp add: AddProperty_def HasProperty_root Section_AddProperty_present)
  next
    case False
    with b have h: "Section_HasProperty (root_section this) name = Inr False" by simp
    show ?thesis
    proof (cases "find_first_of CHR ''.'' name")
      case None
      then have a: "CHR ''.'' \<notin> set name" by (simp add: find_first_of_None_iff)
      from h a nonempty have "GetPropertyIterator (mProperties this) name = None"
        by (simp add: Section_HasProperty_single)
      with h a nonempty None show ?thesis
        by (simp add: AddProperty_def HasProperty_root Section_AddProperty_single
            config_of_add_property)
    next
      case (Some d)
      from find_first_of_split [OF Some] obtain a rest where
        a: "CHR ''.'' \<notin> set a" and name: "name = a @ CHR ''.'' # rest" by blast
      show ?thesis
      proof (cases "a = []")
        case True
        with h show ?thesis
          unfolding name AddProperty_def
          by (simp add: HasProperty_root substr_def HasSection.simps [of _ "[]"]
              AddSection.simps [of _ "[]"] Section_AddProperty_dot_absent [of "[]", simplified])
      next
        case an: False
        show ?thesis
        proof (cases "GetSectionIterator (mSections this) a")
          case None
          have d: "config_deref (this\<lparr>mSections := mSections this @ [BgeConfigSection a [] []]\<rparr>)
              (Some [length (mSections this)]) =
              Inr ([length (mSections this)], BgeConfigSection a [] [])"
            by (simp add: config_deref_def config_section_at_def)
          from h a an None show ?thesis
            unfolding name AddProperty_def
            by (simp add: HasProperty_root find_first_of_present substr_prefix substr_from_suffix
                HasSection_single AddSection_single d Section_AddProperty_dot_absent
                config_section_update_def config_of_add_child split: sum.splits)
        next
          case (Some i)
          then have i: "i < length (mSections this)" by (simp add: GetSectionIterator_Some)
          from h a an Some show ?thesis
            unfolding name AddProperty_def
            by (simp add: HasProperty_root find_first_of_present substr_prefix substr_from_suffix
                HasSection_single GetSection_single config_deref_child [OF i]
                Section_AddProperty_dot_absent config_section_update_def config_of_set_child
                split: sum.splits)
        qed
      qed
    qed
  qed
qed





lemma AddProperty_twice:
  assumes "AddProperty this name pr = Inr this1"
  shows "AddProperty this1 name pr' = Inr this1"
proof -
  from assms obtain s1 where
    r: "Section_AddProperty (root_section this) name pr = Inr s1" and this1: "this1 = config_of s1"
    by (auto simp: AddProperty_root map_sum_def split: sum.splits)
  from Section_AddProperty_post [OF r, of pr'] have post:
    "Section_AddProperty s1 name pr' = Inr s1" "SectionName s1 = []" by simp_all
  from post(2) have "root_section this1 = s1"
    by (simp add: this1 root_of_config)
  with post show ?thesis
    by (simp add: AddProperty_root this1)
qed

fun split_dots :: "string \<Rightarrow> string list" where
  "split_dots [] = [[]]"
| "split_dots (c # cs) =
     (if c = CHR ''.'' then [] # split_dots cs
      else (c # hd (split_dots cs)) # tl (split_dots cs))"

definition valid_path :: "string \<Rightarrow> bool" where
  "valid_path name \<longleftrightarrow> [] \<notin> set (split_dots name)"

fun distinct_names :: "BgeConfigSection \<Rightarrow> bool" where
  "distinct_names (BgeConfigSection n subs props) \<longleftrightarrow>
     distinct (map Name props) \<and> distinct (map SectionName subs) \<and>
     list_all distinct_names subs"


lemma split_dots_nonempty [simp]: "split_dots name \<noteq> []"
  by (induction name) auto

lemma split_dots_single: "CHR ''.'' \<notin> set a \<Longrightarrow> split_dots a = [a]"
  by (induction a) auto

lemma split_dots_dot: "CHR ''.'' \<notin> set a \<Longrightarrow> split_dots (a @ CHR ''.'' # rest) = a # split_dots rest"
  by (induction a) auto

lemma valid_path_single: "CHR ''.'' \<notin> set a \<Longrightarrow> valid_path a \<longleftrightarrow> a \<noteq> []"
  by (auto simp: valid_path_def split_dots_single)

lemma valid_path_dot:
  "CHR ''.'' \<notin> set a \<Longrightarrow> valid_path (a @ CHR ''.'' # rest) \<longleftrightarrow> a \<noteq> [] \<and> valid_path rest"
  by (auto simp: valid_path_def split_dots_dot)

lemma distinct_names_iff:
  "distinct_names s \<longleftrightarrow>
     distinct (map Name (mSectionProperties s)) \<and> distinct (map SectionName (mNestedSections s)) \<and>
     (\<forall>c \<in> set (mNestedSections s). distinct_names c)"
  by (cases s) (simp add: list_all_iff)

lemma GetSectionIterator_None_iff:
  "GetSectionIterator secs a = None \<longleftrightarrow> a \<notin> SectionName ` set secs"
  by (auto simp: GetSectionIterator_def find_if_None_iff)

lemma GetPropertyIterator_None_iff:
  "GetPropertyIterator props a = None \<longleftrightarrow> a \<notin> Name ` set props"
  by (auto simp: GetPropertyIterator_def find_if_None_iff)





lemma distinct_names_new [simp]: "distinct_names (BgeConfigSection a [] [])"
  by simp



lemma Section_AddSubSection_valid:
  "valid_path name \<Longrightarrow> \<exists>s1 ip. Section_AddSubSection s name = Inr (s1, Some ip)"
proof (induction name arbitrary: s rule: dotted_induct)
  case (single a)
  then have "a \<noteq> []" by (simp add: valid_path_single)
  with single.hyps show ?case
    by (auto simp: Section_AddSubSection_single split: option.splits)
next
  case (dot a rest)
  let ?name = "a @ CHR ''.'' # rest"
  from dot.prems dot.hyps have a: "a \<noteq> []" and rest: "valid_path rest"
    by (simp_all add: valid_path_dot)
  obtain b where b: "Section_HasSubSection s ?name = Inr b"
    using Section_lookup_total [of s ?name] by blast
  show ?case
  proof (cases b)
    case True
    with b have h: "Section_HasSubSection s ?name = Inr True" by simp
    from Section_HasSubSection_True [OF h] Section_AddSubSection_present [OF h]
    show ?thesis by auto
  next
    case False
    with b have absent: "Section_HasSubSection s ?name = Inr False" by simp
    note step = Section_AddSubSection_dot_absent [OF dot.hyps a absent]
    show ?thesis
    proof (cases "GetSectionIterator (mNestedSections s) a")
      case None
      from dot.IH [OF rest, of "BgeConfigSection a [] []"] None step show ?thesis by auto
    next
      case (Some i)
      from dot.IH [OF rest, of "mNestedSections s ! i"] Some step show ?thesis by auto
    qed
  qed
qed







section \<open>Saving and reading back\<close>

text \<open>
  The lines \<^verbatim>\<open>Save\<close> writes, what \<^verbatim>\<open>Open\<close> does with each of them, and
  the document that results.
\<close>

subsection \<open>Trimming, comments and integer text\<close>







lemma nat_int_pred2: "nat (int n - 1 - 1) = n - 2"
  by arith

definition no_edge_space :: "string \<Rightarrow> bool" where
  "no_edge_space s \<longleftrightarrow> s \<noteq> [] \<and> \<not> is_space6 (hd s) \<and> \<not> is_space6 (last s)"


























subsection \<open>What one saved line does\<close>

text \<open>
  The reserved name of the section-end line: \<open>SECTIONEND\<close> is the one \<^verbatim>\<open>Open\<close>
  compares a header with, \<open>ENDSECTION\<close> the one the README writes.
\<close>

definition sentinel_name :: "string \<Rightarrow> bool" where
  "sentinel_name n \<longleftrightarrow> n = ''SECTIONEND'' \<or> n = ''ENDSECTION''"

definition valid_section_name :: "string \<Rightarrow> bool" where
  "valid_section_name n \<longleftrightarrow>
     n \<noteq> [] \<and> CHR ''.'' \<notin> set n \<and> StringTrimComment n = n \<and> CHR 0x0A \<notin> set n \<and>
     \<not> sentinel_name n"

definition valid_key :: "string \<Rightarrow> bool" where
  "valid_key k \<longleftrightarrow>
     no_edge_space k \<and> CHR ''.'' \<notin> set k \<and> StringTrimComment k = k \<and> hd k \<noteq> CHR ''['' \<and>
     CHR 0x0A \<notin> set k \<and> \<not> sentinel_name k"

definition plain_value :: "string \<Rightarrow> bool" where
  "plain_value v \<longleftrightarrow>
     no_edge_space v \<and> StringTrimComment v = v \<and> CHR ''='' \<notin> set v \<and> CHR 0x0A \<notin> set v"

definition property_text :: "(float32 \<Rightarrow> string) \<Rightarrow> BgeConfigProperty \<Rightarrow> string" where
  "property_text to_string_float p =
     (case Type p of
        INT' \<Rightarrow> to_string_int (IntValue p)
      | FLOAT \<Rightarrow> to_string_float (FloatValue p)
      | BOOL \<Rightarrow> (if BoolValue p then ''true'' else ''false'')
      | _ \<Rightarrow> StrValue p)"





definition reopened :: "(float32 \<Rightarrow> string) \<Rightarrow> BgeConfigProperty \<Rightarrow> BgeConfigProperty" where
  "reopened to_string_float p =
     BgeConfigProperty6 (Type p) (Name p) (property_text to_string_float p)
       (if Type p = INT' then IntValue p else 0)
       (if Type p = FLOAT then FloatValue p else 0)
       (if Type p = BOOL then BoolValue p else False)"

definition valid_property ::
  "(float32 \<Rightarrow> string) \<Rightarrow> (string \<Rightarrow> error + float32) \<Rightarrow> BgeConfigProperty \<Rightarrow> bool"
where
  "valid_property to_string_float stod p \<longleftrightarrow>
     valid_key (Name p) \<and>
     (case Type p of
        INT' \<Rightarrow> - (2 ^ 31) \<le> IntValue p \<and> IntValue p < 2 ^ 31
      | FLOAT \<Rightarrow>
          EstimateValueType (to_string_float (FloatValue p)) = Inr FLOAT \<and>
          stod (to_string_float (FloatValue p)) = Inr (FloatValue p)
      | BOOL \<Rightarrow> True
      | STRING \<Rightarrow>
          EstimateValueType (StrValue p) = Inr STRING \<and> plain_value (StrValue p) \<and>
          \<not> is_quote (hd (StrValue p)) \<and> \<not> is_quote (last (StrValue p)) \<and>
          length (StrValue p) < 2 ^ 64
      | UNKNOWN \<Rightarrow> StrValue p = [])"










fun dotted :: "string list \<Rightarrow> string" where
  "dotted [] = []"
| "dotted [a] = a"
| "dotted (a # b # rest) = a @ CHR ''.'' # dotted (b # rest)"

lemma dotted_Cons: "segs \<noteq> [] \<Longrightarrow> dotted (a # segs) = a @ CHR ''.'' # dotted segs"
  by (cases segs) simp_all





lemma split_dots_dotted:
  "segs \<noteq> [] \<Longrightarrow> \<forall>a \<in> set segs. CHR ''.'' \<notin> set a \<Longrightarrow> split_dots (dotted segs) = segs"
  by (induction segs rule: dotted.induct) (simp_all add: split_dots_single split_dots_dot)

lemma valid_path_dotted:
  "segs \<noteq> [] \<Longrightarrow> \<forall>a \<in> set segs. valid_section_name a \<Longrightarrow> valid_path (dotted segs)"
  unfolding valid_path_def
  by (subst split_dots_dotted) (auto simp: valid_section_name_def)

subsection \<open>Lines as commands on a section\<close>

datatype command = Enter "string list" | Put BgeConfigProperty | Blank


fun valid_command ::
  "(float32 \<Rightarrow> string) \<Rightarrow> (string \<Rightarrow> error + float32) \<Rightarrow> command \<Rightarrow> bool"
where
  "valid_command tsf stod (Enter segs) \<longleftrightarrow> segs \<noteq> [] \<and> list_all valid_section_name segs"
| "valid_command tsf stod (Put p) \<longleftrightarrow> valid_property tsf stod p"
| "valid_command tsf stod Blank \<longleftrightarrow> True"

text \<open>What a line does, seen from a section that stands for the document.\<close>

fun Section_run ::
  "(float32 \<Rightarrow> string) \<Rightarrow> BgeConfigSection \<times> section_ptr option \<Rightarrow> command
     \<Rightarrow> error + (BgeConfigSection \<times> section_ptr option)"
where
  "Section_run tsf (r, cur) (Enter segs) =
     (case Section_HasSubSection r (dotted segs) of
        Inl e \<Rightarrow> Inl e
      | Inr False \<Rightarrow> Section_AddSubSection r (dotted segs)
      | Inr True \<Rightarrow> map_sum id (Pair r) (Section_GetSubSection r (dotted segs)))"
| "Section_run tsf (r, cur) (Put p) =
     (case cur of
        None \<Rightarrow> map_sum id (\<lambda>r1. (r1, None)) (Section_AddProperty r (Name p) (reopened tsf p))
      | Some ip \<Rightarrow>
          (case deref r (Some ip) of
             Inl e \<Rightarrow> Inl e
           | Inr (ip1, sec) \<Rightarrow>
               (case Section_AddProperty sec (Name p) (reopened tsf p) of
                  Inl e \<Rightarrow> Inl e
                | Inr sec1 \<Rightarrow> Inr (section_update r ip sec1, Some ip))))"
| "Section_run tsf (r, cur) Blank = Inr (r, cur)"

fun Section_runs ::
  "(float32 \<Rightarrow> string) \<Rightarrow> BgeConfigSection \<times> section_ptr option \<Rightarrow> command list
     \<Rightarrow> error + (BgeConfigSection \<times> section_ptr option)"
where
  "Section_runs tsf st [] = Inr st"
| "Section_runs tsf st (c # cs) =
     (case Section_run tsf st c of
        Inl e \<Rightarrow> Inl e
      | Inr st1 \<Rightarrow> Section_runs tsf st1 cs)"

lemma Section_runs_append:
  "Section_runs tsf st (cs @ ds) =
     (case Section_runs tsf st cs of
        Inl e \<Rightarrow> Inl e
      | Inr st1 \<Rightarrow> Section_runs tsf st1 ds)"
  by (induction cs arbitrary: st) (auto split: sum.splits)

lemma Open_loop_append:
  "Open_loop stod (xs @ ys) st =
     (case Open_loop stod xs st of
        Inl e \<Rightarrow> Inl e
      | Inr st1 \<Rightarrow> Open_loop stod ys st1)"
  by (induction xs arbitrary: st) (auto split: sum.splits)

lemma Section_GetSubSection_nonempty:
  "Section_GetSubSection s name = Inr (Some ip) \<Longrightarrow> ip \<noteq> []"
proof (cases "find_first_of CHR ''.'' name")
  case None
  assume g: "Section_GetSubSection s name = Inr (Some ip)"
  from None have "CHR ''.'' \<notin> set name" by (simp add: find_first_of_None_iff)
  with g show ?thesis
    by (auto simp: Section_GetSubSection_single split: if_splits)
next
  case (Some d)
  assume g: "Section_GetSubSection s name = Inr (Some ip)"
  from find_first_of_split [OF Some] obtain a rest where
    a: "CHR ''.'' \<notin> set a" and name: "name = a @ CHR ''.'' # rest" by blast
  from g show ?thesis
    unfolding name Section_GetSubSection_dot [OF a]
    by (auto simp: map_sum_def split: if_splits option.splits sum.splits)
qed

lemma section_update_name:
  "ip \<noteq> [] \<Longrightarrow> SectionName (section_update r ip v) = SectionName r"
  by (cases ip) simp_all

lemma Section_run_keeps:
  assumes "Section_run tsf (r, cur) cmd = Inr (r1, cur1)"
  shows "SectionName r1 = SectionName r" "cur \<noteq> Some [] \<Longrightarrow> cur1 \<noteq> Some []"
proof -
  have "SectionName r1 = SectionName r \<and> (cur \<noteq> Some [] \<longrightarrow> cur1 \<noteq> Some [])"
  proof (cases cmd)
    case (Enter segs)
    obtain b where b: "Section_HasSubSection r (dotted segs) = Inr b"
      using Section_lookup_total [of r "dotted segs"] by blast
    show ?thesis
    proof (cases b)
      case True
      with b assms Enter have "r1 = r" "Section_GetSubSection r (dotted segs) = Inr cur1"
        by (auto simp: map_sum_def split: sum.splits)
      then show ?thesis using Section_GetSubSection_nonempty [of r "dotted segs"] by auto
    next
      case False
      with b assms Enter have add: "Section_AddSubSection r (dotted segs) = Inr (r1, cur1)"
        by simp
      from Section_AddSubSection_post [OF add] show ?thesis
        using Section_GetSubSection_nonempty [of r1 "dotted segs"] by auto
    qed
  next
    case (Put p)
    show ?thesis
    proof (cases cur)
      case None
      with assms Put show ?thesis
        by (auto simp: map_sum_def split: sum.splits dest: Section_AddProperty_post)
    next
      case (Some ip)
      with assms Put obtain sec sec1 where
        "deref r (Some ip) = Inr (ip, sec)"
        "Section_AddProperty sec (Name p) (reopened tsf p) = Inr sec1"
        "r1 = section_update r ip sec1" "cur1 = Some ip"
        by (auto simp: deref_def split: sum.splits option.splits)
      moreover from this(1) have "ip = [] \<Longrightarrow> sec = r"
        by (simp add: deref_def)
      ultimately show ?thesis
        using Section_AddProperty_post [of sec "Name p" "reopened tsf p" sec1] Some
        by (cases "ip = []") (auto simp: section_update_name)
    qed
  next
    case Blank
    with assms show ?thesis by simp
  qed
  then show "SectionName r1 = SectionName r" "cur \<noteq> Some [] \<Longrightarrow> cur1 \<noteq> Some []"
    by blast+
qed



fun push :: "string \<Rightarrow> command \<Rightarrow> command" where
  "push n (Enter segs) = Enter (n # segs)"
| "push n (Put p) = Put p"
| "push n Blank = Blank"

lemma valid_command_push:
  "valid_section_name n \<Longrightarrow> valid_command tsf stod cmd \<Longrightarrow> valid_command tsf stod (push n cmd)"
  by (cases cmd) simp_all

lemma frame_run:
  assumes it: "GetSectionIterator (mNestedSections r) n = Some k"
    and n: "valid_section_name n"
    and cmd: "valid_command tsf stod cmd"
    and run: "Section_run tsf (mNestedSections r ! k, Some q) cmd = Inr (child1, cur1)"
  shows "\<exists>q1. cur1 = Some q1 \<and>
           Section_run tsf (r, Some (k # q)) (push n cmd) = Inr (set_child r k child1, Some (k # q1))"
proof (cases cmd)
  case (Enter segs)
  let ?child = "mNestedSections r ! k"
  from n have nd: "CHR ''.'' \<notin> set n" and ne: "n \<noteq> []"
    by (simp_all add: valid_section_name_def)
  from cmd Enter have segs: "segs \<noteq> []" "\<forall>a \<in> set segs. valid_section_name a"
    by (simp_all add: list_all_iff)
  then have name: "dotted (n # segs) = n @ CHR ''.'' # dotted segs"
    by (simp add: dotted_Cons)
  from segs have vp: "valid_path (dotted segs)" by (rule valid_path_dotted)
  have has: "Section_HasSubSection r (n @ CHR ''.'' # dotted segs) =
      Section_HasSubSection ?child (dotted segs)"
    using it ne by (simp add: Section_HasSubSection_dot [OF nd])
  have get: "Section_GetSubSection r (n @ CHR ''.'' # dotted segs) =
      map_sum id (map_option (Cons k)) (Section_GetSubSection ?child (dotted segs))"
    using it ne by (simp add: Section_GetSubSection_dot [OF nd])
  obtain b where b: "Section_HasSubSection ?child (dotted segs) = Inr b"
    using Section_lookup_total [of ?child "dotted segs"] by blast
  show ?thesis
  proof (cases b)
    case True
    with b have h: "Section_HasSubSection ?child (dotted segs) = Inr True" by simp
    from Section_HasSubSection_True [OF h] obtain q1 where
      q1: "Section_GetSubSection ?child (dotted segs) = Inr (Some q1)" by blast
    with h run Enter have "child1 = ?child" "cur1 = Some q1" by simp_all
    with h q1 show ?thesis
      unfolding Enter push.simps Section_run.simps name has get
      by (simp add: set_child_same)
  next
    case False
    with b have h: "Section_HasSubSection ?child (dotted segs) = Inr False" by simp
    with run Enter have add: "Section_AddSubSection ?child (dotted segs) = Inr (child1, cur1)"
      by simp
    from Section_AddSubSection_valid [OF vp, of ?child] add obtain q1 where
      q1: "cur1 = Some q1" by auto
    from h has have absent: "Section_HasSubSection r (n @ CHR ''.'' # dotted segs) = Inr False"
      by simp
    from Section_AddSubSection_dot_absent [OF nd ne absent] it add q1 absent show ?thesis
      unfolding Enter push.simps Section_run.simps name
      by simp
  qed
next
  case (Put p)
  from it have k: "k < length (mNestedSections r)" by (simp add: GetSectionIterator_Some)
  from run Put obtain sec sec1 where
    sec: "section_at (mNestedSections r ! k) q = Some sec"
    and add: "Section_AddProperty sec (Name p) (reopened tsf p) = Inr sec1"
    and res: "child1 = section_update (mNestedSections r ! k) q sec1" "cur1 = Some q"
    by (auto simp: deref_def split: sum.splits option.splits)
  from k sec have "deref r (Some (k # q)) = Inr (k # q, sec)"
    by (simp add: deref_def)
  with add res show ?thesis
    unfolding Put by (simp add: set_child_def)
next
  case Blank
  with run show ?thesis using set_child_same [of r k] by auto
qed

lemma set_child_twice: "set_child (set_child r k c) k c' = set_child r k c'"
  by (simp add: set_child_def)

lemma frame_runs:
  assumes "GetSectionIterator (mNestedSections r) n = Some k" "valid_section_name n"
    and "list_all (valid_command tsf stod) cmds"
    and "Section_runs tsf (mNestedSections r ! k, Some q) cmds = Inr (child1, cur1)"
  shows "\<exists>q1. cur1 = Some q1 \<and>
           Section_runs tsf (r, Some (k # q)) (map (push n) cmds) =
           Inr (set_child r k child1, Some (k # q1))"
  using assms
proof (induction cmds arbitrary: r q)
  case Nil
  then show ?case using set_child_same [of r k] by auto
next
  case (Cons c cs)
  let ?child = "mNestedSections r ! k"
  from Cons.prems(1) have k: "k < length (mNestedSections r)"
    by (simp add: GetSectionIterator_Some)
  from Cons.prems(3) have c: "valid_command tsf stod c" and cs: "list_all (valid_command tsf stod) cs"
    by simp_all
  from Cons.prems(4) obtain child' cur' where
    step: "Section_run tsf (?child, Some q) c = Inr (child', cur')"
    and rest: "Section_runs tsf (child', cur') cs = Inr (child1, cur1)"
    by (auto split: sum.splits)
  from frame_run [OF Cons.prems(1,2) c step] obtain q' where
    q': "cur' = Some q'"
    and up: "Section_run tsf (r, Some (k # q)) (push n c) = Inr (set_child r k child', Some (k # q'))"
    by blast
  from Section_run_keeps(1) [OF step] have same: "SectionName child' = SectionName ?child" .
  let ?r' = "set_child r k child'"
  have it': "GetSectionIterator (mNestedSections ?r') n = Some k"
    using Cons.prems(1) k same by (simp add: GetSectionIterator_update)
  have child: "mNestedSections ?r' ! k = child'"
    using k by simp
  from rest q' k have "Section_runs tsf (mNestedSections ?r' ! k, Some q') cs = Inr (child1, cur1)"
    by simp
  from Cons.IH [OF it' Cons.prems(2) cs this] up show ?case
    by (simp add: set_child_twice)
qed

subsection \<open>A saved section read back\<close>

fun reopened_section :: "(float32 \<Rightarrow> string) \<Rightarrow> BgeConfigSection \<Rightarrow> BgeConfigSection" where
  "reopened_section tsf (BgeConfigSection n subs props) =
     BgeConfigSection n (map (reopened_section tsf) subs) (map (reopened tsf) props)"

fun section_commands :: "string list \<Rightarrow> BgeConfigSection \<Rightarrow> command list" where
  "section_commands P (BgeConfigSection n subs props) =
     Enter (P @ [n]) # map Put props @ Blank # concat (map (section_commands (P @ [n])) subs)"

fun valid_section ::
  "(float32 \<Rightarrow> string) \<Rightarrow> (string \<Rightarrow> error + float32) \<Rightarrow> BgeConfigSection \<Rightarrow> bool"
where
  "valid_section tsf stod (BgeConfigSection n subs props) \<longleftrightarrow>
     valid_section_name n \<and> list_all (valid_property tsf stod) props \<and>
     distinct (map Name props) \<and> distinct (map SectionName subs) \<and>
     list_all (valid_section tsf stod) subs"

lemma reopened_section_name [simp]: "SectionName (reopened_section tsf s) = SectionName s"
  by (cases s) simp

lemma reopened_name [simp]: "Name (reopened tsf p) = Name p"
  by (simp add: reopened_def BgeConfigProperty6_def)

lemma section_commands_push:
  "section_commands (n # P) s = map (push n) (section_commands P s)"
proof (induction s arbitrary: P)
  case (BgeConfigSection m subs props)
  have "map (section_commands (n # P @ [m])) subs =
      map (\<lambda>c. map (push n) (section_commands (P @ [m]) c)) subs"
    by (rule map_cong [OF refl]) (use BgeConfigSection in simp)
  then have "concat (map (section_commands (n # P @ [m])) subs) =
      concat (map (\<lambda>c. map (push n) (section_commands (P @ [m]) c)) subs)"
    by (rule arg_cong)
  then show ?case
    by (simp add: map_concat comp_def)
qed

lemma section_commands_valid:
  "valid_section tsf stod s \<Longrightarrow> list_all valid_section_name P \<Longrightarrow>
   list_all (valid_command tsf stod) (section_commands P s)"
proof (induction s arbitrary: P)
  case (BgeConfigSection m subs props)
  from BgeConfigSection.prems have m: "valid_section_name m"
    and props: "list_all (valid_property tsf stod) props"
    and subs: "\<forall>c \<in> set subs. valid_section tsf stod c"
    by (simp_all add: list_all_iff)
  from m BgeConfigSection.prems(2) have P': "list_all valid_section_name (P @ [m])" by simp
  have "\<forall>c \<in> set subs. list_all (valid_command tsf stod) (section_commands (P @ [m]) c)"
    using BgeConfigSection.IH subs P' by blast
  then have "list_all (valid_command tsf stod) (concat (map (section_commands (P @ [m])) subs))"
    by (auto simp: list_all_iff)
  with P' props show ?case
    by (auto simp: list_all_iff)
qed

definition add_all ::
  "(float32 \<Rightarrow> string) \<Rightarrow> BgeConfigSection \<Rightarrow> BgeConfigProperty list \<Rightarrow> BgeConfigSection"
where
  "add_all tsf sec ps =
     BgeConfigSection (SectionName sec) (mNestedSections sec)
       (mSectionProperties sec @ map (reopened tsf) ps)"

lemma add_all_Nil: "add_all tsf sec [] = sec"
  by (simp add: add_all_def)

lemma add_all_Cons:
  "add_all tsf sec (p # ps) = add_all tsf (add_property sec (reopened tsf p)) ps"
  by (simp add: add_all_def add_property_def)

lemma put_one:
  assumes "valid_property tsf stod p" "Name p \<notin> Name ` set (mSectionProperties sec)"
  shows "Section_AddProperty sec (Name p) (reopened tsf p) =
         Inr (add_property sec (reopened tsf p))"
proof -
  from assms(1) have k: "CHR ''.'' \<notin> set (Name p)" "Name p \<noteq> []"
    by (simp_all add: valid_property_def valid_key_def no_edge_space_def)
  from assms(2) have none: "GetPropertyIterator (mSectionProperties sec) (Name p) = None"
    by (simp add: GetPropertyIterator_None_iff)
  have same: "reopened tsf p\<lparr>Name := Name p\<rparr> = reopened tsf p"
    by (simp add: reopened_def BgeConfigProperty6_def)
  from none show ?thesis
    by (simp add: Section_AddProperty_single [OF k] same)
qed


lemma puts_at_child:
  assumes "list_all (valid_property tsf stod) ps" "distinct (map Name ps)"
    and "k < length (mNestedSections r)"
    and "Name ` set ps \<inter> Name ` set (mSectionProperties (mNestedSections r ! k)) = {}"
  shows "Section_runs tsf (r, Some [k]) (map Put ps) =
         Inr (set_child r k (add_all tsf (mNestedSections r ! k) ps), Some [k])"
  using assms
proof (induction ps arbitrary: r)
  case Nil
  then show ?case by (simp add: add_all_Nil set_child_same)
next
  case (Cons p ps)
  let ?sec = "mNestedSections r ! k"
  from Cons.prems have p: "valid_property tsf stod p"
    and fresh: "Name p \<notin> Name ` set (mSectionProperties ?sec)" by auto
  let ?sec' = "add_property ?sec (reopened tsf p)"
  let ?r' = "set_child r k ?sec'"
  from Cons.prems(3) have child: "mNestedSections ?r' ! k = ?sec'" by simp
  from Cons.prems have "list_all (valid_property tsf stod) ps" "distinct (map Name ps)"
    "k < length (mNestedSections ?r')"
    "Name ` set ps \<inter> Name ` set (mSectionProperties (mNestedSections ?r' ! k)) = {}"
    unfolding child by auto
  from Cons.IH [OF this] put_one [OF p fresh] Cons.prems(3) show ?case
    by (simp add: add_all_Cons deref_child section_update_single set_child_twice
        del: section_update.simps)
qed

lemma set_child_of_add_child:
  "set_child (add_child r c) (length (mNestedSections r)) c' = add_child r c'"
  by (simp add: set_child_def add_child_def)

lemma children_blocks:
  assumes block: "\<And>c r cur. c \<in> set cs \<Longrightarrow>
      GetSectionIterator (mNestedSections r) (SectionName c) = None \<Longrightarrow>
      \<exists>cur1. Section_runs tsf (r, cur) (section_commands [] c) =
             Inr (add_child r (reopened_section tsf c), cur1)"
    and valid: "\<forall>c \<in> set cs. valid_section tsf stod c"
    and it: "GetSectionIterator (mNestedSections r) n = Some k" and n: "valid_section_name n"
    and node: "mNestedSections r ! k = BgeConfigSection n done ps"
    and names: "distinct (map SectionName cs)"
      "SectionName ` set cs \<inter> SectionName ` set done = {}"
  shows "\<exists>q1. Section_runs tsf (r, Some (k # q)) (concat (map (section_commands [n]) cs)) =
           Inr (set_child r k (BgeConfigSection n (done @ map (reopened_section tsf) cs) ps),
                Some (k # q1))"
  using assms
proof (induction cs arbitrary: r q "done")
  case Nil
  from set_child_same [of r k] Nil.prems(5) show ?case by simp
next
  case (Cons c cs)
  let ?node = "BgeConfigSection n done ps"
  from Cons.prems(3) have k: "k < length (mNestedSections r)"
    by (simp add: GetSectionIterator_Some)
  from Cons.prems(7) have "GetSectionIterator (mNestedSections ?node) (SectionName c) = None"
    by (auto simp: GetSectionIterator_None_iff)
  from Cons.prems(1) [OF _ this, of "Some q"] obtain cur1 where
    inner: "Section_runs tsf (?node, Some q) (section_commands [] c) =
        Inr (add_child ?node (reopened_section tsf c), cur1)" by auto
  from Cons.prems(2) have "valid_section tsf stod c" by simp
  then have cmds: "list_all (valid_command tsf stod) (section_commands [] c)"
    by (rule section_commands_valid) simp
  from frame_runs [OF Cons.prems(3,4) cmds inner [folded Cons.prems(5)]] obtain q1 where
    outer: "Section_runs tsf (r, Some (k # q)) (map (push n) (section_commands [] c)) =
        Inr (set_child r k (add_child ?node (reopened_section tsf c)), Some (k # q1))"
    unfolding Cons.prems(5) by blast
  let ?done' = "done @ [reopened_section tsf c]"
  let ?r' = "set_child r k (add_child ?node (reopened_section tsf c))"
  have it': "GetSectionIterator (mNestedSections ?r') n = Some k"
    using Cons.prems(3,5) k by (simp add: GetSectionIterator_update)
  have node': "mNestedSections ?r' ! k = BgeConfigSection n ?done' ps"
    using k by (simp add: add_child_def)
  from Cons.prems(6,7) have names': "distinct (map SectionName cs)"
    "SectionName ` set cs \<inter> SectionName ` set ?done' = {}" by auto
  from Cons.prems(2) have valid': "\<forall>c \<in> set cs. valid_section tsf stod c" by simp
  have block': "\<And>c r cur. c \<in> set cs \<Longrightarrow>
      GetSectionIterator (mNestedSections r) (SectionName c) = None \<Longrightarrow>
      \<exists>cur1. Section_runs tsf (r, cur) (section_commands [] c) =
             Inr (add_child r (reopened_section tsf c), cur1)"
    using Cons.prems(1) by simp
  from Cons.IH [OF block' valid' it' Cons.prems(4) node' names', of q1] obtain q2 where
    rest: "Section_runs tsf (?r', Some (k # q1)) (concat (map (section_commands [n]) cs)) =
        Inr (set_child ?r' k (BgeConfigSection n (?done' @ map (reopened_section tsf) cs) ps),
             Some (k # q2))" by blast
  have "section_commands [n] c = map (push n) (section_commands [] c)"
    by (rule section_commands_push)
  with outer rest show ?case
    by (simp add: Section_runs_append set_child_twice)
qed

lemma enter_new:
  assumes "valid_section_name n" "GetSectionIterator (mNestedSections r) n = None"
  shows "Section_run tsf (r, cur) (Enter [n]) =
         Inr (add_child r (BgeConfigSection n [] []), Some [length (mNestedSections r)])"
proof -
  from assms(1) have nd: "CHR ''.'' \<notin> set n" and ne: "n \<noteq> []"
    by (simp_all add: valid_section_name_def)
  have h: "Section_HasSubSection r n = Inr False"
    using assms(2) by (simp add: Section_HasSubSection_single [OF nd])
  have a: "Section_AddSubSection r n =
      Inr (add_child r (BgeConfigSection n [] []), Some [length (mNestedSections r)])"
    using assms(2) by (simp add: Section_AddSubSection_single [OF nd ne])
  show ?thesis by (simp add: h a)
qed

lemma block:
  assumes "valid_section tsf stod s"
    and "GetSectionIterator (mNestedSections r) (SectionName s) = None"
  shows "\<exists>cur1. Section_runs tsf (r, cur) (section_commands [] s) =
           Inr (add_child r (reopened_section tsf s), cur1)"
  using assms
proof (induction s arbitrary: r cur)
  case (BgeConfigSection n subs props)
  let ?k = "length (mNestedSections r)"
  from BgeConfigSection.prems(1) have n: "valid_section_name n"
    and props: "list_all (valid_property tsf stod) props" "distinct (map Name props)"
    and subs: "distinct (map SectionName subs)" "\<forall>c \<in> set subs. valid_section tsf stod c"
    by (simp_all add: list_all_iff)
  \<comment> \<open>the header\<close>
  let ?r1 = "add_child r (BgeConfigSection n [] [])"
  have s1: "Section_run tsf (r, cur) (Enter [n]) = Inr (?r1, Some [?k])"
    by (rule enter_new [OF n]) (use BgeConfigSection.prems(2) in simp)
  \<comment> \<open>the properties\<close>
  have child1: "mNestedSections ?r1 ! ?k = BgeConfigSection n [] []" by simp
  let ?r2 = "set_child ?r1 ?k (add_all tsf (BgeConfigSection n [] []) props)"
  have s2: "Section_runs tsf (?r1, Some [?k]) (map Put props) = Inr (?r2, Some [?k])"
    using puts_at_child [OF props, of ?k ?r1] by simp
  have r2: "?r2 = add_child r (BgeConfigSection n [] (map (reopened tsf) props))"
    by (simp add: set_child_of_add_child add_all_def)
  \<comment> \<open>the nested sections\<close>
  let ?r2' = "add_child r (BgeConfigSection n [] (map (reopened tsf) props))"
  from BgeConfigSection.prems(2) have it: "GetSectionIterator (mNestedSections ?r2') n = Some ?k"
    by (simp add: GetSectionIterator_append_new)
  have node: "mNestedSections ?r2' ! ?k = BgeConfigSection n [] (map (reopened tsf) props)"
    by simp
  have blocks: "\<And>c r cur. c \<in> set subs \<Longrightarrow>
      GetSectionIterator (mNestedSections r) (SectionName c) = None \<Longrightarrow>
      \<exists>cur1. Section_runs tsf (r, cur) (section_commands [] c) =
             Inr (add_child r (reopened_section tsf c), cur1)"
    using BgeConfigSection.IH subs(2) by blast
  from children_blocks [OF blocks subs(2) it n node subs(1), of "[]"] obtain q1 where
    s3: "Section_runs tsf (?r2', Some [?k]) (concat (map (section_commands [n]) subs)) =
       Inr (set_child ?r2' ?k (BgeConfigSection n (map (reopened_section tsf) subs)
              (map (reopened tsf) props)), Some (?k # q1))"
    by auto
  from s1 s2 s3 show ?case
    by (simp add: Section_runs_append set_child_of_add_child add_all_def)
qed


subsection \<open>The whole document\<close>
































section \<open>The classifier\<close>

text \<open>
  C9. The classification table of the specification: \<open>123\<close> is an integer, \<open>-4.5\<close> a
  float, \<open>true\<close> and \<open>True\<close> booleans, \<open>hello\<close> and \<open>12a\<close> strings, and the empty
  token is unknown.
\<close>

theorem classification_table:
  "EstimateValueType ''123'' = Inr INT' \<and>
   EstimateValueType ''-4.5'' = Inr FLOAT \<and>
   EstimateValueType ''true'' = Inr BOOL \<and>
   EstimateValueType ''True'' = Inr BOOL \<and>
   EstimateValueType ''hello'' = Inr STRING \<and>
   EstimateValueType '''' = Inr UNKNOWN \<and>
   EstimateValueType ''12a'' = Inr STRING"
  by (simp add: EstimateValueType_def StringIsBool_def StringIsNumber_def
      StringIsFloat_def at_def)


text \<open>
  C5. A lone sign is classified as an integer, not as a string: after the sign the digit
  loop of \<^verbatim>\<open>StringIsNumber\<close> has nothing to reject. The classifier itself does not
  fault there.
\<close>

theorem lone_sign_is_int:
  "EstimateValueType ''+'' = Inr INT' \<and> EstimateValueType ''-'' = Inr INT'"
  by (simp add: EstimateValueType_def StringIsBool_def StringIsNumber_def at_def)

section \<open>Trimming\<close>

text \<open>
  C6. \<^verbatim>\<open>StringTrimLeading\<close> removes tab, newline and space only: a carriage return, a
  form feed or a vertical tab at either end stays, so the line \<open>A = 1\<close> followed by a
  carriage return gives a string property whose value ends with the carriage return, and
  a header followed by a carriage return is not a header.
\<close>

theorem trim_keeps_carriage_return:
  "StringTrimLeading [CHR 0x0D, CHR ''A''] = [CHR 0x0D, CHR ''A''] \<and>
   StringTrimLeading [CHR ''A'', CHR 0x0C] = [CHR ''A'', CHR 0x0C] \<and>
   StringTrimLeading [CHR 0x0B, CHR ''A''] = [CHR 0x0B, CHR ''A''] \<and>
   Open stod_throws (file_of [''[General]'' @ [CHR 0x0D], ''A = 1'' @ [CHR 0x0D]]) empty_config =
     Inr \<lparr>mProperties =
            [\<lparr>Name = ''A'', Type = STRING, StrValue = ''1'' @ [CHR 0x0D], IntValue = 0,
              FloatValue = 0, BoolValue = False\<rparr>],
          mSections = []\<rparr>"
  by code_simp

section \<open>The parser\<close>

text \<open>
  C1. The header test comes before the comparison with \<open>[SECTIONEND]\<close>, and the
  sentinel line passes the header test: the parser opens a section named
  \<open>SECTIONEND\<close> and the property after it lands there, not at the document root.
  The spelling \<open>[ENDSECTION]\<close> of the README does the same.
\<close>

theorem sentinel_opens_a_section:
  "Open stod_throws (file_of [''[General]'', ''A = 1'', ''[SECTIONEND]'', ''B = 2'']) empty_config =
     Inr \<lparr>mProperties = [],
          mSections =
            [BgeConfigSection ''General'' []
               [\<lparr>Name = ''A'', Type = INT', StrValue = ''1'', IntValue = 1, FloatValue = 0,
                 BoolValue = False\<rparr>],
             BgeConfigSection ''SECTIONEND'' []
               [\<lparr>Name = ''B'', Type = INT', StrValue = ''2'', IntValue = 2, FloatValue = 0,
                 BoolValue = False\<rparr>]]\<rparr> \<and>
   Open stod_throws (file_of [''[General]'', ''A = 1'', ''[ENDSECTION]'', ''B = 2'']) empty_config =
     Inr \<lparr>mProperties = [],
          mSections =
            [BgeConfigSection ''General'' []
               [\<lparr>Name = ''A'', Type = INT', StrValue = ''1'', IntValue = 1, FloatValue = 0,
                 BoolValue = False\<rparr>],
             BgeConfigSection ''ENDSECTION'' []
               [\<lparr>Name = ''B'', Type = INT', StrValue = ''2'', IntValue = 2, FloatValue = 0,
                 BoolValue = False\<rparr>]]\<rparr>"
  by code_simp

text \<open>
  C3. When the file is not ready, \<^verbatim>\<open>Open\<close> returns before \<^verbatim>\<open>Close()\<close>: the
  document is left as it was, whatever it held.
\<close>

theorem open_not_ready_keeps_document:
  "\<not> Ready file \<Longrightarrow> Open stod file this = Inr this"
  by (simp add: Open_def)

theorem open_not_ready_keeps_document_witness:
  "\<not> Ready missing_file \<and>
   Open stod_throws missing_file
     \<lparr>mProperties = [BgeConfigProperty6 INT' ''A'' ''1'' 1 0 False], mSections = []\<rparr> =
   Inr \<lparr>mProperties = [BgeConfigProperty6 INT' ''A'' ''1'' 1 0 False], mSections = []\<rparr>"
  using open_not_ready_keeps_document [of missing_file stod_throws
      "\<lparr>mProperties = [BgeConfigProperty6 INT' ''A'' ''1'' 1 0 False], mSections = []\<rparr>"]
  by (simp add: missing_file_def)

theorem open_not_ready_not_cleared:
  "Open stod_throws missing_file
     \<lparr>mProperties = [BgeConfigProperty6 INT' ''A'' ''1'' 1 0 False], mSections = []\<rparr> \<noteq>
   Inr (Close \<lparr>mProperties = [BgeConfigProperty6 INT' ''A'' ''1'' 1 0 False], mSections = []\<rparr>)"
  by (simp add: Open_def missing_file_def Close_def)

text \<open>
  C4. \<^verbatim>\<open>Open\<close> lets exceptions out: a line of white space only is empty after trimming
  and \<^verbatim>\<open>cleanLine.at(0)\<close> throws; an integer literal beyond 32 bits and a lone sign make
  \<^verbatim>\<open>std::stoi\<close> throw; a value that is one quote character is empty after the first
  quote is removed and \<^verbatim>\<open>split1.at(split1EndIdx)\<close> throws; a header whose name starts
  with a dot dereferences the null pointer that \<^verbatim>\<open>AddSection\<close> of the empty name
  returns, as \<^verbatim>\<open>AddSection\<close> and \<^verbatim>\<open>AddSubSection\<close> do when called with such a path.
\<close>

theorem open_and_add_fault:
  "Open stod (file_of ['' '']) this = Inl out_of_range \<and>
   Open stod (file_of [''  // note'']) this = Inl out_of_range \<and>
   Open stod (file_of [''A = 99999999999'']) this = Inl out_of_range \<and>
   Open stod (file_of [''A = +'']) this = Inl invalid_argument \<and>
   Open stod (file_of [''A = '' @ [CHR 0x27]]) this = Inl out_of_range \<and>
   Open stod (file_of [''[.a]'']) this = Inl null_dereference \<and>
   AddSection this ''.a'' = Inl null_dereference \<and>
   Section_AddSubSection sec ''.a'' = Inl null_dereference"
proof -
  have add: "AddSection this' ''.a'' = Inl null_dereference" for this'
    by code_simp
  have sub: "Section_AddSubSection sec ''.a'' = Inl null_dereference"
    by code_simp
  have hdr: "HasSection this' ''.a'' = Inr False" for this'
    by code_simp
  have l1: "Open stod (file_of ['' '']) this = Inl out_of_range"
    by (simp add: open_eval)
  have l2: "Open stod (file_of [''  // note'']) this = Inl out_of_range"
    by (simp add: open_eval)
  have l3: "Open stod (file_of [''A = 99999999999'']) this = Inl out_of_range"
    by (simp add: open_eval)
  have l4: "Open stod (file_of [''A = +'']) this = Inl invalid_argument"
    by (simp add: open_eval)
  have l5: "Open stod (file_of [''A = '' @ [CHR 0x27]]) this = Inl out_of_range"
    by (simp add: open_eval)
  have l6: "Open stod (file_of [''[.a]'']) this = Inl null_dereference"
    by (simp add: open_eval add hdr)
  from l1 l2 l3 l4 l5 l6 add sub show ?thesis
    by (intro conjI)
qed





section \<open>Addressing\<close>

text \<open>
  C10. With the empty string as path every addressing operation returns at its first
  test: the getters return the null pointer, the tests return false, and the insertions
  leave the document or section as it is (\<^verbatim>\<open>AddSection\<close> and \<^verbatim>\<open>AddSubSection\<close> return
  the null pointer).
\<close>

theorem empty_path_is_not_found:
  "Get this [] = Inr None \<and> GetSection this [] = Inr None \<and>
   HasProperty this [] = Inr False \<and> HasSection this [] = Inr False \<and>
   AddProperty this [] property = Inr this \<and> AddSection this [] = Inr (this, None) \<and>
   Section_Get sec [] = Inr None \<and> Section_GetSubSection sec [] = Inr None \<and>
   Section_HasProperty sec [] = Inr False \<and> Section_HasSubSection sec [] = Inr False \<and>
   Section_AddProperty sec [] property = Inr sec \<and>
   Section_AddSubSection sec [] = Inr (sec, None)"
  by (simp add: Get_def HasProperty_def AddProperty_def GetSection.simps HasSection.simps
      AddSection.simps Section_Get.simps Section_GetSubSection.simps Section_HasProperty.simps
      Section_HasSubSection.simps Section_AddProperty.simps Section_AddSubSection.simps)




section \<open>Save and Open\<close>




end
